theory Spec2Isabelle
  imports Main "HOL-Library.Word"
begin

section \<open>Common utilities of nnstreamer-edge: metadata, events, edge data\<close>

text \<open>
  A shallow embedding of \<^verbatim>\<open>nnstreamer-edge-common.c\<close>: the allocation helpers, the
  metadata store, the event object and the edge data object, each C function under its
  own name. Pointers that the code tests against NULL are options, or addresses with 0
  for NULL; output parameters are returned next to the status code; the requests to the
  allocator are answered by a list of outcomes that is threaded through the calls. The
  functions for port numbers and host strings (\<^verbatim>\<open>nns_edge_get_available_port\<close>,
  \<^verbatim>\<open>nns_edge_get_host_string\<close>, \<^verbatim>\<open>nns_edge_parse_host_string\<close>,
  \<^verbatim>\<open>nns_edge_strdup_printf\<close>) use sockets and formatted printing and are left out.
\<close>

subsection \<open>Status codes and C strings\<close>

text \<open>
  Modelled from the spec: the header that declares the status codes is not among the
  sources. The spec names success and the two error kinds; the code only compares a
  status with \<^verbatim>\<open>NNS_EDGE_ERROR_NONE\<close>.
\<close>

datatype nns_edge_error_e =
    NNS_EDGE_ERROR_NONE
  | NNS_EDGE_ERROR_INVALID_PARAMETER
  | NNS_EDGE_ERROR_OUT_OF_MEMORY

text \<open>
  What C leaves undefined is a value of its own: a read at an offset that is not below
  the supplied length of a buffer, an access through a pointer to nothing allocated
  (or to an object of another kind), an index outside an array.
\<close>

datatype fault = ReadPastEnd nat | BadPointer nat | BadIndex nat

text \<open>
  A \<^verbatim>\<open>const char *\<close> argument is \<open>None\<close> for NULL, and otherwise the characters found
  at the address; the string it denotes ends before the first NUL.
\<close>

definition NUL :: char where
  "NUL = CHR 0x00"

definition c_str :: "string \<Rightarrow> string" where
  "c_str s = takeWhile (\<lambda>c. c \<noteq> NUL) s"

definition strlen :: "string \<Rightarrow> nat" where
  "strlen s = length (c_str s)"

text \<open>
  Modelled from the spec: the macro \<^verbatim>\<open>STR_IS_VALID\<close> is defined in the missing header;
  the spec says that an absent or empty string is refused.
\<close>

definition STR_IS_VALID :: "string option \<Rightarrow> bool" where
  "STR_IS_VALID s = (case s of None \<Rightarrow> False | Some cs \<Rightarrow> c_str cs \<noteq> [])"

text \<open>The C library's \<^verbatim>\<open>tolower\<close> and \<^verbatim>\<open>strcasecmp\<close> in the C locale.\<close>

definition tolower :: "char \<Rightarrow> char" where
  "tolower c = (let n = (of_char c :: nat) in
     if 65 \<le> n \<and> n \<le> 90 then char_of (n + 32) else c)"

fun strcasecmp_aux :: "string \<Rightarrow> string \<Rightarrow> int" where
  "strcasecmp_aux [] [] = 0"
| "strcasecmp_aux [] (b # bs) = - int (of_char (tolower b))"
| "strcasecmp_aux (a # as) [] = int (of_char (tolower a))"
| "strcasecmp_aux (a # as) (b # bs) =
     (if tolower a = tolower b then strcasecmp_aux as bs
      else int (of_char (tolower a)) - int (of_char (tolower b)))"

definition strcasecmp :: "string \<Rightarrow> string \<Rightarrow> int" where
  "strcasecmp s1 s2 = strcasecmp_aux (c_str s1) (c_str s2)"

subsection \<open>Allocation\<close>

text \<open>
  The outcomes of the coming allocation requests: \<open>True\<close> refuses the request
  (\<^verbatim>\<open>malloc\<close> returns NULL), \<open>False\<close> grants it; when the list is used up every request
  is granted.
\<close>

type_synonym alloc = "bool list"

fun take_alloc :: "alloc \<Rightarrow> bool \<times> alloc" where
  "take_alloc [] = (True, [])"
| "take_alloc (refused # al) = (\<not> refused, al)"

definition nns_edge_strndup :: "alloc \<Rightarrow> string option \<Rightarrow> nat \<Rightarrow> string option \<times> alloc" where
  "nns_edge_strndup al str len =
     (case str of
        None \<Rightarrow> (None, al)
      | Some s \<Rightarrow>
          (let (granted, al1) = take_alloc al in
           if granted then (Some (take len (c_str s)), al1) else (None, al1)))"

definition nns_edge_strdup :: "alloc \<Rightarrow> string option \<Rightarrow> string option \<times> alloc" where
  "nns_edge_strdup al str =
     (case str of
        None \<Rightarrow> (None, al)
      | Some s \<Rightarrow> nns_edge_strndup al str (strlen s))"

subsection \<open>Metadata\<close>

text \<open>
  The node chain of \<^verbatim>\<open>nns_edge_metadata_s\<close> in link order, each node with the strings
  its \<^verbatim>\<open>key\<close> and \<^verbatim>\<open>value\<close> point to, and the counter \<^verbatim>\<open>list_len\<close>, an
  \<^verbatim>\<open>unsigned int\<close>.
\<close>

record nns_edge_metadata_s =
  list :: "(string \<times> string) list"
  list_len :: "32 word"

text \<open>The position of the first node whose key matches, \<open>None\<close> for NULL.\<close>

fun find_node :: "(string \<times> string) list \<Rightarrow> string \<Rightarrow> nat option" where
  "find_node [] key = None"
| "find_node (node # nodes) key =
     (if strcasecmp key (fst node) = 0 then Some 0
      else map_option Suc (find_node nodes key))"

definition nns_edge_metadata_find :: "nns_edge_metadata_s option \<Rightarrow> string option \<Rightarrow> nat option" where
  "nns_edge_metadata_find meta key =
     (case meta of
        None \<Rightarrow> None
      | Some m \<Rightarrow>
          (case key of
             None \<Rightarrow> None
           | Some k \<Rightarrow> if \<not> STR_IS_VALID key then None else find_node (list m) k))"

definition nns_edge_metadata_init ::
  "nns_edge_metadata_s option \<Rightarrow> nns_edge_error_e \<times> nns_edge_metadata_s option" where
  "nns_edge_metadata_init meta =
     (case meta of
        None \<Rightarrow> (NNS_EDGE_ERROR_INVALID_PARAMETER, None)
      | Some m \<Rightarrow> (NNS_EDGE_ERROR_NONE, Some \<lparr>list = [], list_len = 0\<rparr>))"

definition nns_edge_metadata_free ::
  "nns_edge_metadata_s option \<Rightarrow> nns_edge_error_e \<times> nns_edge_metadata_s option" where
  "nns_edge_metadata_free meta =
     (case meta of
        None \<Rightarrow> (NNS_EDGE_ERROR_INVALID_PARAMETER, None)
      | Some m \<Rightarrow> (NNS_EDGE_ERROR_NONE, Some (m\<lparr>list_len := 0, list := []\<rparr>)))"

definition nns_edge_metadata_set ::
  "alloc \<Rightarrow> nns_edge_metadata_s option \<Rightarrow> string option \<Rightarrow> string option
     \<Rightarrow> nns_edge_error_e \<times> nns_edge_metadata_s option \<times> alloc" where
  "nns_edge_metadata_set al meta key val =
     (case meta of
        None \<Rightarrow> (NNS_EDGE_ERROR_INVALID_PARAMETER, None, al)
      | Some m \<Rightarrow>
          if \<not> STR_IS_VALID key then (NNS_EDGE_ERROR_INVALID_PARAMETER, meta, al)
          else if \<not> STR_IS_VALID val then (NNS_EDGE_ERROR_INVALID_PARAMETER, meta, al)
          else
            (case nns_edge_metadata_find meta key of
               Some i \<Rightarrow>
                 (let (v, al1) = nns_edge_strdup al val in
                  case v of
                    None \<Rightarrow> (NNS_EDGE_ERROR_OUT_OF_MEMORY, meta, al1)
                  | Some v' \<Rightarrow>
                      (NNS_EDGE_ERROR_NONE,
                       Some (m\<lparr>list := (list m)[i := (fst (list m ! i), v')]\<rparr>), al1))
             | None \<Rightarrow>
                 (let (granted, al1) = take_alloc al in
                  if \<not> granted then (NNS_EDGE_ERROR_OUT_OF_MEMORY, meta, al1)
                  else
                    (let (k, al2) = nns_edge_strdup al1 key;
                         (v, al3) = nns_edge_strdup al2 val
                     in case (k, v) of
                          (Some k', Some v') \<Rightarrow>
                            (NNS_EDGE_ERROR_NONE,
                             Some (m\<lparr>list_len := list_len m + 1, list := (k', v') # list m\<rparr>),
                             al3)
                        | _ \<Rightarrow> (NNS_EDGE_ERROR_OUT_OF_MEMORY, meta, al3)))))"

text \<open>
  The output parameter \<^verbatim>\<open>char **value\<close> is \<open>None\<close> for a NULL pointer and otherwise
  holds what the caller's variable contains.
\<close>

definition nns_edge_metadata_get ::
  "alloc \<Rightarrow> nns_edge_metadata_s option \<Rightarrow> string option \<Rightarrow> string option option
     \<Rightarrow> nns_edge_error_e \<times> string option option \<times> alloc" where
  "nns_edge_metadata_get al meta key val =
     (case val of
        None \<Rightarrow> (NNS_EDGE_ERROR_INVALID_PARAMETER, None, al)
      | Some old \<Rightarrow>
          (case (meta, nns_edge_metadata_find meta key) of
             (Some m, Some i) \<Rightarrow>
               (let (v, al1) = nns_edge_strdup al (Some (snd (list m ! i))) in
                (if v \<noteq> None then NNS_EDGE_ERROR_NONE else NNS_EDGE_ERROR_OUT_OF_MEMORY,
                 Some v, al1))
           | _ \<Rightarrow> (NNS_EDGE_ERROR_INVALID_PARAMETER, val, al)))"

text \<open>
  The loop of \<^verbatim>\<open>nns_edge_metadata_copy\<close> over the nodes of \<^verbatim>\<open>src\<close>, building the
  local \<^verbatim>\<open>tmp\<close>; on a failed \<^verbatim>\<open>set\<close> it frees \<^verbatim>\<open>tmp\<close> and returns the status.
\<close>

fun copy_nodes ::
  "alloc \<Rightarrow> nns_edge_metadata_s option \<Rightarrow> (string \<times> string) list
     \<Rightarrow> nns_edge_error_e \<times> nns_edge_metadata_s option \<times> alloc" where
  "copy_nodes al tmp [] = (NNS_EDGE_ERROR_NONE, tmp, al)"
| "copy_nodes al tmp (node # nodes) =
     (let (ret, tmp1, al1) = nns_edge_metadata_set al tmp (Some (fst node)) (Some (snd node)) in
      if ret \<noteq> NNS_EDGE_ERROR_NONE then (ret, snd (nns_edge_metadata_free tmp1), al1)
      else copy_nodes al1 tmp1 nodes)"

definition nns_edge_metadata_copy ::
  "alloc \<Rightarrow> nns_edge_metadata_s option \<Rightarrow> nns_edge_metadata_s option
     \<Rightarrow> nns_edge_error_e \<times> nns_edge_metadata_s option \<times> alloc" where
  "nns_edge_metadata_copy al dest src =
     (case (dest, src) of
        (Some d, Some s) \<Rightarrow>
          (let tmp = snd (nns_edge_metadata_init (Some \<lparr>list = [], list_len = 0\<rparr>));
               (ret, tmp1, al1) = copy_nodes al tmp (list s)
           in if ret \<noteq> NNS_EDGE_ERROR_NONE then (ret, dest, al1)
              else (NNS_EDGE_ERROR_NONE, tmp1, al1))
      | _ \<Rightarrow> (NNS_EDGE_ERROR_INVALID_PARAMETER, dest, al))"

text \<open>
  The count field: an \<^verbatim>\<open>unsigned int\<close> of four bytes, stored through a cast of the
  buffer, on a little-endian machine.
\<close>

definition store_uint :: "32 word \<Rightarrow> string" where
  "store_uint w = map (\<lambda>i. char_of (unat w div 256 ^ i)) [0, 1, 2, 3]"

definition load_uint :: "string \<Rightarrow> 32 word" where
  "load_uint bs = of_nat (of_char (bs ! 0) + 256 * of_char (bs ! 1)
                    + 65536 * of_char (bs ! 2) + 16777216 * of_char (bs ! 3))"

text \<open>The two loops of \<^verbatim>\<open>nns_edge_metadata_serialize\<close>: the size, then the bytes.\<close>

fun serialized_size :: "(string \<times> string) list \<Rightarrow> nat \<Rightarrow> nat" where
  "serialized_size [] tot = tot"
| "serialized_size (node # nodes) tot =
     serialized_size nodes (tot + (strlen (fst node) + strlen (snd node) + 2))"

fun write_nodes :: "(string \<times> string) list \<Rightarrow> string" where
  "write_nodes [] = []"
| "write_nodes (node # nodes) =
     c_str (fst node) @ [NUL] @ c_str (snd node) @ [NUL] @ write_nodes nodes"

text \<open>
  The output parameters \<^verbatim>\<open>void **data\<close> and \<^verbatim>\<open>size_t *data_len\<close>: \<open>None\<close> for a NULL
  pointer; the variable behind \<^verbatim>\<open>data\<close> holds NULL (\<open>None\<close>) or the bytes of the
  allocated block.
\<close>

definition nns_edge_metadata_serialize ::
  "alloc \<Rightarrow> nns_edge_metadata_s option \<Rightarrow> string option option \<Rightarrow> nat option
     \<Rightarrow> nns_edge_error_e \<times> string option option \<times> nat option \<times> alloc" where
  "nns_edge_metadata_serialize al meta data data_len =
     (case meta of
        None \<Rightarrow> (NNS_EDGE_ERROR_INVALID_PARAMETER, data, data_len, al)
      | Some m \<Rightarrow>
          if data = None \<or> data_len = None
          then (NNS_EDGE_ERROR_INVALID_PARAMETER, data, data_len, al)
          else if list_len m = 0 then (NNS_EDGE_ERROR_NONE, Some None, Some 0, al)
          else
            (let tot = serialized_size (list m) 4;
                 (granted, al1) = take_alloc al
             in if \<not> granted then (NNS_EDGE_ERROR_OUT_OF_MEMORY, Some None, Some 0, al1)
                else (NNS_EDGE_ERROR_NONE,
                      Some (Some (store_uint (list_len m) @ write_nodes (list m))),
                      Some tot, al1)))"

text \<open>
  Reading the buffer of \<^verbatim>\<open>nns_edge_metadata_deserialize\<close>. The bytes that the caller
  supplied are \<open>take data_len data\<close>: those that \<open>data\<close> holds, up to the length
  \<open>data_len\<close> that was passed; a read at any other offset is \<open>ReadPastEnd\<close>
  with the first such offset, whatever the machine holds there. \<open>buf_str buf cur\<close> is
  the string that \<^verbatim>\<open>strlen\<close> scans at \<^verbatim>\<open>(char *) data + cur\<close>. The loop tests
  \<open>cur\<close> against \<open>data_len\<close> itself, as the source does, also when \<open>data\<close> holds
  fewer bytes than that.
\<close>

definition buf_uint :: "string \<Rightarrow> fault + 32 word" where
  "buf_uint buf = (if length buf < 4 then Inl (ReadPastEnd (length buf)) else Inr (load_uint buf))"

definition buf_str :: "string \<Rightarrow> nat \<Rightarrow> fault + string" where
  "buf_str buf cur =
     (if NUL \<in> set (drop cur buf) then Inr (c_str (drop cur buf))
      else Inl (ReadPastEnd (max cur (length buf))))"

function deserialize_loop ::
  "alloc \<Rightarrow> nns_edge_metadata_s option \<Rightarrow> string \<Rightarrow> nat \<Rightarrow> 32 word \<Rightarrow> nat
     \<Rightarrow> fault + nns_edge_error_e \<times> nns_edge_metadata_s option \<times> alloc" where
  "deserialize_loop al meta data data_len tot cur =
     (if cur < data_len \<or> (case meta of None \<Rightarrow> False | Some m \<Rightarrow> list_len m < tot) then
        (case buf_str (take data_len data) cur of
           Inl f \<Rightarrow> Inl f
         | Inr key \<Rightarrow>
             (case buf_str (take data_len data) (cur + (length key + 1)) of
                Inl f \<Rightarrow> Inl f
              | Inr val \<Rightarrow>
                  (case nns_edge_metadata_set al meta (Some key) (Some val) of
                     (ret, meta1, al1) \<Rightarrow>
                       if ret \<noteq> NNS_EDGE_ERROR_NONE
                       then Inr (ret, snd (nns_edge_metadata_free meta1), al1)
                       else deserialize_loop al1 meta1 data data_len tot
                              (cur + (length key + 1) + (length val + 1)))))
      else Inr (NNS_EDGE_ERROR_NONE, meta, al))"
  by pat_completeness auto
termination
proof (relation "measure (\<lambda>(al, meta, data, data_len, tot, cur). data_len - cur)")
  show "wf (measure (\<lambda>(al, meta, data, data_len, tot, cur). data_len - cur))"
    by simp
next
  fix al :: alloc and meta :: "nns_edge_metadata_s option" and data :: string
    and data_len :: nat and tot :: "32 word" and cur :: nat and key val :: string
  assume "buf_str (take data_len data) cur = Inr key"
  then have "NUL \<in> set (drop cur (take data_len data))"
    by (simp add: buf_str_def split: if_splits)
  then have "cur < length (take data_len data)"
    by (cases "cur < length (take data_len data)") auto
  then have "cur < data_len"
    by simp
  then show "((al1, meta1, data, data_len, tot, cur + (length key + 1) + (length val + 1)),
              (al, meta, data, data_len, tot, cur))
             \<in> measure (\<lambda>(al, meta, data, data_len, tot, cur). data_len - cur)"
    for al1 :: alloc and meta1 :: "nns_edge_metadata_s option"
    by simp
qed

definition nns_edge_metadata_deserialize ::
  "alloc \<Rightarrow> nns_edge_metadata_s option \<Rightarrow> string option \<Rightarrow> nat
     \<Rightarrow> fault + nns_edge_error_e \<times> nns_edge_metadata_s option \<times> alloc" where
  "nns_edge_metadata_deserialize al meta data data_len =
     (case meta of
        None \<Rightarrow> Inr (NNS_EDGE_ERROR_INVALID_PARAMETER, None, al)
      | Some m \<Rightarrow>
          (case data of
             None \<Rightarrow> Inr (NNS_EDGE_ERROR_INVALID_PARAMETER, meta, al)
           | Some bytes \<Rightarrow>
               if data_len \<le> 0 then Inr (NNS_EDGE_ERROR_INVALID_PARAMETER, meta, al)
               else
                 (let meta1 = snd (nns_edge_metadata_free meta) in
                  case buf_uint (take data_len bytes) of
                    Inl f \<Rightarrow> Inl f
                  | Inr tot \<Rightarrow> deserialize_loop al meta1 bytes data_len tot 4)))"

declare deserialize_loop.simps [simp del]

subsection \<open>Objects and the heap\<close>

text \<open>
  Modelled from the spec: the structures, the callback type and the macros
  \<^verbatim>\<open>NNS_EDGE_MAGIC\<close>, \<^verbatim>\<open>NNS_EDGE_MAGIC_DEAD\<close>, \<^verbatim>\<open>NNS_EDGE_MAGIC_IS_VALID\<close> and
  \<^verbatim>\<open>SAFE_FREE\<close> are declared in headers that are not among the sources. The records
  have the fields that the code accesses. The spec describes the tag in the first field:
  one value for a live object, another written when destruction starts, a handle being
  valid when it is not NULL and its tag is the live value. The two numbers below stand
  for the two macros; only their being different is used.
\<close>

definition NNS_EDGE_MAGIC :: "32 word" where
  "NNS_EDGE_MAGIC = 0xfeedfeed"

definition NNS_EDGE_MAGIC_DEAD :: "32 word" where
  "NNS_EDGE_MAGIC_DEAD = 0xdeaddead"

text \<open>
  A destructor is a function pointer: this file's \<^verbatim>\<open>nns_edge_free\<close> or a function of
  the caller, known by a number only.
\<close>

datatype callback = NNS_EDGE_FREE | CALLER_CB nat

record nns_edge_raw_data_s =
  rd_data :: nat
  rd_data_len :: nat
  rd_destroy_cb :: "callback option"

record nns_edge_data_s =
  ed_magic :: "32 word"
  ed_num :: nat
  ed_data :: "nns_edge_raw_data_s list"
  ed_metadata :: nns_edge_metadata_s

record nns_edge_event_s =
  ee_magic :: "32 word"
  ee_event :: int
  ee_data :: nns_edge_raw_data_s

text \<open>
  Modelled from the spec: the enumeration of event kinds is declared in a missing
  header. The spec gives a sentinel for the unknown kind, which is never constructed,
  and the kinds for an announced capability and for new data. The numbers below stand
  for these enumerators; only the sentinel being the least of them and the two kinds
  being different is used.
\<close>

definition NNS_EDGE_EVENT_UNKNOWN :: int where
  "NNS_EDGE_EVENT_UNKNOWN = 0"

definition NNS_EDGE_EVENT_CAPABILITY :: int where
  "NNS_EDGE_EVENT_CAPABILITY = 1"

definition NNS_EDGE_EVENT_NEW_DATA_RECEIVED :: int where
  "NNS_EDGE_EVENT_NEW_DATA_RECEIVED = 2"

text \<open>
  The heap maps an address (0 is NULL) to the block that starts there: raw bytes, an
  edge data object or an event. A block that was released stays in the heap as
  \<open>Released ob\<close>, with the object \<open>ob\<close> that it held last; it no longer belongs to the
  program. \<open>brk\<close> is the last address handed out (an address is handed out once, so
  that nothing overwrites a released block), \<open>oom\<close> the outcomes of the coming requests
  and \<open>calls\<close> the destructors invoked so far, each with its argument.
\<close>

datatype object =
    Bytes string
  | EdgeData nns_edge_data_s
  | EdgeEvent nns_edge_event_s
  | Released object

record heap =
  objs :: "nat \<Rightarrow> object option"
  brk :: nat
  oom :: alloc
  calls :: "(callback \<times> nat) list"

definition malloc :: "heap \<Rightarrow> object \<Rightarrow> nat \<times> heap" where
  "malloc h ob =
     (let (granted, al1) = take_alloc (oom h) in
      if \<not> granted then (0, h\<lparr>oom := al1\<rparr>)
      else (Suc (brk h),
            h\<lparr>objs := (objs h)(Suc (brk h) \<mapsto> ob), brk := Suc (brk h), oom := al1\<rparr>))"

text \<open>
  Releasing what is not allocated, or what was released already, is undefined;
  \<^verbatim>\<open>free (NULL)\<close> does nothing.
\<close>

definition free :: "heap \<Rightarrow> nat \<Rightarrow> fault + heap" where
  "free h p =
     (if p = 0 then Inr h
      else case objs h p of
             None \<Rightarrow> Inl (BadPointer p)
           | Some (Released ob) \<Rightarrow> Inl (BadPointer p)
           | Some ob \<Rightarrow> Inr (h\<lparr>objs := (objs h)(p \<mapsto> Released ob)\<rparr>))"

definition nns_edge_free :: "heap \<Rightarrow> nat \<Rightarrow> fault + heap" where
  "nns_edge_free h data = (if data \<noteq> 0 then free h data else Inr h)"

definition SAFE_FREE :: "heap \<Rightarrow> nat \<Rightarrow> fault + heap" where
  "SAFE_FREE h p = (if p \<noteq> 0 then free h p else Inr h)"

text \<open>A call through a destructor pointer. What a caller's function does is not known.\<close>

definition invoke :: "heap \<Rightarrow> callback \<Rightarrow> nat \<Rightarrow> fault + heap" where
  "invoke h cb p =
     (case cb of
        NNS_EDGE_FREE \<Rightarrow> nns_edge_free (h\<lparr>calls := calls h @ [(cb, p)]\<rparr>) p
      | CALLER_CB n \<Rightarrow> Inr (h\<lparr>calls := calls h @ [(cb, p)]\<rparr>))"

text \<open>
  The casts of a handle: \<open>Inr None\<close> for NULL, the object when the address holds one of
  the kind, and undefined otherwise. Every function that takes a handle reads the tag
  through it first and returns at once when the tag is not the live value. For a handle
  to a released block this read is outside what C defines; it finds the tag that the
  block held when it was released. So the cast of such a handle gives the object last
  held there when its tag is not the live value, which lets the function compare the tag
  and return, and is undefined when the tag is the live value, since the function would
  go on to use the released block.
\<close>

definition as_data :: "heap \<Rightarrow> nat \<Rightarrow> fault + nns_edge_data_s option" where
  "as_data h p =
     (if p = 0 then Inr None
      else case objs h p of
             Some (EdgeData ed) \<Rightarrow> Inr (Some ed)
           | Some (Released (EdgeData ed)) \<Rightarrow>
               if ed_magic ed = NNS_EDGE_MAGIC then Inl (BadPointer p) else Inr (Some ed)
           | _ \<Rightarrow> Inl (BadPointer p))"

definition as_event :: "heap \<Rightarrow> nat \<Rightarrow> fault + nns_edge_event_s option" where
  "as_event h p =
     (if p = 0 then Inr None
      else case objs h p of
             Some (EdgeEvent ee) \<Rightarrow> Inr (Some ee)
           | Some (Released (EdgeEvent ee)) \<Rightarrow>
               if ee_magic ee = NNS_EDGE_MAGIC then Inl (BadPointer p) else Inr (Some ee)
           | _ \<Rightarrow> Inl (BadPointer p))"

definition nns_edge_memdup :: "heap \<Rightarrow> nat \<Rightarrow> nat \<Rightarrow> fault + nat \<times> heap" where
  "nns_edge_memdup h data sz =
     (if data \<noteq> 0 \<and> sz > 0 then
        (let (mem, h1) = malloc h (Bytes (replicate sz NUL)) in
         if mem \<noteq> 0 then
           (case objs h1 data of
              Some (Bytes bs) \<Rightarrow>
                if sz \<le> length bs
                then Inr (mem, h1\<lparr>objs := (objs h1)(mem \<mapsto> Bytes (take sz bs))\<rparr>)
                else Inl (ReadPastEnd (length bs))
            | _ \<Rightarrow> Inl (BadPointer data))
         else Inr (0, h1))
      else Inr (0, h))"

subsection \<open>Events\<close>

definition nns_edge_event_create ::
  "heap \<Rightarrow> int \<Rightarrow> nat option \<Rightarrow> nns_edge_error_e \<times> nat option \<times> heap" where
  "nns_edge_event_create h event event_h =
     (case event_h of
        None \<Rightarrow> (NNS_EDGE_ERROR_INVALID_PARAMETER, None, h)
      | Some old \<Rightarrow>
          if event \<le> NNS_EDGE_EVENT_UNKNOWN then (NNS_EDGE_ERROR_INVALID_PARAMETER, event_h, h)
          else
            (let (ee, h1) = malloc h (EdgeEvent
                   \<lparr>ee_magic = NNS_EDGE_MAGIC, ee_event = event,
                    ee_data = \<lparr>rd_data = 0, rd_data_len = 0, rd_destroy_cb = None\<rparr>\<rparr>)
             in if ee = 0 then (NNS_EDGE_ERROR_OUT_OF_MEMORY, event_h, h1)
                else (NNS_EDGE_ERROR_NONE, Some ee, h1)))"

definition nns_edge_event_destroy :: "heap \<Rightarrow> nat \<Rightarrow> fault + nns_edge_error_e \<times> heap" where
  "nns_edge_event_destroy h event_h =
     (case as_event h event_h of
        Inl f \<Rightarrow> Inl f
      | Inr None \<Rightarrow> Inr (NNS_EDGE_ERROR_INVALID_PARAMETER, h)
      | Inr (Some ee) \<Rightarrow>
          if ee_magic ee \<noteq> NNS_EDGE_MAGIC then Inr (NNS_EDGE_ERROR_INVALID_PARAMETER, h)
          else
            (let h1 = h\<lparr>objs := (objs h)(event_h \<mapsto> EdgeEvent (ee\<lparr>ee_magic := NNS_EDGE_MAGIC_DEAD\<rparr>))\<rparr>
             in case (case rd_destroy_cb (ee_data ee) of
                        None \<Rightarrow> Inr h1
                      | Some cb \<Rightarrow> invoke h1 cb (rd_data (ee_data ee))) of
                  Inl f \<Rightarrow> Inl f
                | Inr h2 \<Rightarrow>
                    (case SAFE_FREE h2 event_h of
                       Inl f \<Rightarrow> Inl f
                     | Inr h3 \<Rightarrow> Inr (NNS_EDGE_ERROR_NONE, h3))))"

definition nns_edge_event_set_data ::
  "heap \<Rightarrow> nat \<Rightarrow> nat \<Rightarrow> nat \<Rightarrow> callback option \<Rightarrow> fault + nns_edge_error_e \<times> heap" where
  "nns_edge_event_set_data h event_h data data_len destroy_cb =
     (case as_event h event_h of
        Inl f \<Rightarrow> Inl f
      | Inr None \<Rightarrow> Inr (NNS_EDGE_ERROR_INVALID_PARAMETER, h)
      | Inr (Some ee) \<Rightarrow>
          if ee_magic ee \<noteq> NNS_EDGE_MAGIC then Inr (NNS_EDGE_ERROR_INVALID_PARAMETER, h)
          else if data = 0 \<or> data_len \<le> 0 then Inr (NNS_EDGE_ERROR_INVALID_PARAMETER, h)
          else
            (case (case rd_destroy_cb (ee_data ee) of
                     None \<Rightarrow> Inr h
                   | Some cb \<Rightarrow> invoke h cb (rd_data (ee_data ee))) of
               Inl f \<Rightarrow> Inl f
             | Inr h1 \<Rightarrow>
                 (case as_event h1 event_h of
                    Inr (Some ee1) \<Rightarrow>
                      Inr (NNS_EDGE_ERROR_NONE,
                           h1\<lparr>objs := (objs h1)(event_h \<mapsto> EdgeEvent
                                 (ee1\<lparr>ee_data := \<lparr>rd_data = data, rd_data_len = data_len,
                                                   rd_destroy_cb = destroy_cb\<rparr>\<rparr>))\<rparr>)
                  | _ \<Rightarrow> Inl (BadPointer event_h))))"

definition nns_edge_event_get_type ::
  "heap \<Rightarrow> nat \<Rightarrow> int option \<Rightarrow> fault + nns_edge_error_e \<times> int option" where
  "nns_edge_event_get_type h event_h event =
     (case as_event h event_h of
        Inl f \<Rightarrow> Inl f
      | Inr None \<Rightarrow> Inr (NNS_EDGE_ERROR_INVALID_PARAMETER, event)
      | Inr (Some ee) \<Rightarrow>
          if ee_magic ee \<noteq> NNS_EDGE_MAGIC then Inr (NNS_EDGE_ERROR_INVALID_PARAMETER, event)
          else if event = None then Inr (NNS_EDGE_ERROR_INVALID_PARAMETER, event)
          else Inr (NNS_EDGE_ERROR_NONE, Some (ee_event ee)))"

subsection \<open>Edge data\<close>

text \<open>
  Modelled from the spec: the macro \<^verbatim>\<open>NNS_EDGE_DATA_LIMIT\<close>, the number of entries of
  the array \<^verbatim>\<open>data\<close> in \<^verbatim>\<open>nns_edge_data_s\<close>, is defined in a missing header and the
  spec gives no number for it. It is the parameter \<open>limit\<close> of the functions that use
  the macro or create an object.
\<close>

definition put_metadata :: "nns_edge_data_s \<Rightarrow> nns_edge_metadata_s option \<Rightarrow> nns_edge_data_s" where
  "put_metadata ed meta = (case meta of None \<Rightarrow> ed | Some m \<Rightarrow> ed\<lparr>ed_metadata := m\<rparr>)"

definition nns_edge_data_create ::
  "nat \<Rightarrow> heap \<Rightarrow> nat option \<Rightarrow> nns_edge_error_e \<times> nat option \<times> heap" where
  "nns_edge_data_create limit h data_h =
     (case data_h of
        None \<Rightarrow> (NNS_EDGE_ERROR_INVALID_PARAMETER, None, h)
      | Some old \<Rightarrow>
          (let (ed, h1) = malloc h (EdgeData
                 (put_metadata
                    \<lparr>ed_magic = NNS_EDGE_MAGIC, ed_num = 0,
                     ed_data = replicate limit \<lparr>rd_data = 0, rd_data_len = 0, rd_destroy_cb = None\<rparr>,
                     ed_metadata = \<lparr>list = [], list_len = 0\<rparr>\<rparr>
                    (snd (nns_edge_metadata_init (Some \<lparr>list = [], list_len = 0\<rparr>)))))
           in if ed = 0 then (NNS_EDGE_ERROR_OUT_OF_MEMORY, data_h, h1)
              else (NNS_EDGE_ERROR_NONE, Some ed, h1)))"

text \<open>The loop of \<^verbatim>\<open>nns_edge_data_destroy\<close> over the entries below \<^verbatim>\<open>num\<close>.\<close>

function destroy_entries :: "heap \<Rightarrow> nns_edge_data_s \<Rightarrow> nat \<Rightarrow> fault + heap" where
  "destroy_entries h ed i =
     (if i < ed_num ed then
        if length (ed_data ed) \<le> i then Inl (BadIndex i)
        else
          (case (case rd_destroy_cb (ed_data ed ! i) of
                   None \<Rightarrow> Inr h
                 | Some cb \<Rightarrow> invoke h cb (rd_data (ed_data ed ! i))) of
             Inl f \<Rightarrow> Inl f
           | Inr h1 \<Rightarrow> destroy_entries h1 ed (Suc i))
      else Inr h)"
  by pat_completeness auto
termination
  by (relation "measure (\<lambda>(h, ed, i). ed_num ed - i)") auto

declare destroy_entries.simps [simp del]

definition nns_edge_data_destroy :: "heap \<Rightarrow> nat \<Rightarrow> fault + nns_edge_error_e \<times> heap" where
  "nns_edge_data_destroy h data_h =
     (case as_data h data_h of
        Inl f \<Rightarrow> Inl f
      | Inr None \<Rightarrow> Inr (NNS_EDGE_ERROR_INVALID_PARAMETER, h)
      | Inr (Some ed) \<Rightarrow>
          if ed_magic ed \<noteq> NNS_EDGE_MAGIC then Inr (NNS_EDGE_ERROR_INVALID_PARAMETER, h)
          else
            (let h1 = h\<lparr>objs := (objs h)(data_h \<mapsto> EdgeData (ed\<lparr>ed_magic := NNS_EDGE_MAGIC_DEAD\<rparr>))\<rparr>
             in case destroy_entries h1 ed 0 of
                  Inl f \<Rightarrow> Inl f
                | Inr h2 \<Rightarrow>
                    (case objs h2 data_h of
                       Some (EdgeData ed2) \<Rightarrow>
                         (let h3 = h2\<lparr>objs := (objs h2)(data_h \<mapsto> EdgeData
                                     (put_metadata ed2
                                        (snd (nns_edge_metadata_free (Some (ed_metadata ed2))))))\<rparr>
                          in case SAFE_FREE h3 data_h of
                               Inl f \<Rightarrow> Inl f
                             | Inr h4 \<Rightarrow> Inr (NNS_EDGE_ERROR_NONE, h4))
                     | _ \<Rightarrow> Inl (BadPointer data_h))))"

definition nns_edge_data_is_valid :: "heap \<Rightarrow> nat \<Rightarrow> fault + nns_edge_error_e" where
  "nns_edge_data_is_valid h data_h =
     (case as_data h data_h of
        Inl f \<Rightarrow> Inl f
      | Inr None \<Rightarrow> Inr NNS_EDGE_ERROR_INVALID_PARAMETER
      | Inr (Some ed) \<Rightarrow>
          if ed_magic ed \<noteq> NNS_EDGE_MAGIC then Inr NNS_EDGE_ERROR_INVALID_PARAMETER
          else Inr NNS_EDGE_ERROR_NONE)"

text \<open>
  The loop of \<^verbatim>\<open>nns_edge_data_copy\<close>: entry \<open>i\<close> of the object at \<open>copied\<close> gets what
  \<^verbatim>\<open>nns_edge_memdup\<close> returned, the length of the source entry and \<^verbatim>\<open>nns_edge_free\<close>.
\<close>

function copy_entries :: "heap \<Rightarrow> nns_edge_data_s \<Rightarrow> nat \<Rightarrow> nat \<Rightarrow> fault + heap" where
  "copy_entries h ed copied i =
     (if i < ed_num ed then
        if length (ed_data ed) \<le> i then Inl (BadIndex i)
        else
          (case nns_edge_memdup h (rd_data (ed_data ed ! i)) (rd_data_len (ed_data ed ! i)) of
             Inl f \<Rightarrow> Inl f
           | Inr (mem, h1) \<Rightarrow>
               (case as_data h1 copied of
                  Inr (Some cp) \<Rightarrow>
                    if length (ed_data cp) \<le> i then Inl (BadIndex i)
                    else copy_entries
                           (h1\<lparr>objs := (objs h1)(copied \<mapsto> EdgeData
                                  (cp\<lparr>ed_data := (ed_data cp)
                                         [i := \<lparr>rd_data = mem,
                                                rd_data_len = rd_data_len (ed_data ed ! i),
                                                rd_destroy_cb = Some NNS_EDGE_FREE\<rparr>]\<rparr>))\<rparr>)
                           ed copied (Suc i)
                | _ \<Rightarrow> Inl (BadPointer copied)))
      else Inr h)"
  by pat_completeness auto
termination
  by (relation "measure (\<lambda>(h, ed, copied, i). ed_num ed - i)") auto

declare copy_entries.simps [simp del]

definition nns_edge_data_copy ::
  "nat \<Rightarrow> heap \<Rightarrow> nat \<Rightarrow> nat option \<Rightarrow> fault + nns_edge_error_e \<times> nat option \<times> heap" where
  "nns_edge_data_copy limit h data_h new_data_h =
     (case as_data h data_h of
        Inl f \<Rightarrow> Inl f
      | Inr None \<Rightarrow> Inr (NNS_EDGE_ERROR_INVALID_PARAMETER, new_data_h, h)
      | Inr (Some ed) \<Rightarrow>
          if ed_magic ed \<noteq> NNS_EDGE_MAGIC then Inr (NNS_EDGE_ERROR_INVALID_PARAMETER, new_data_h, h)
          else if new_data_h = None then Inr (NNS_EDGE_ERROR_INVALID_PARAMETER, new_data_h, h)
          else
            (case nns_edge_data_create limit h new_data_h of
               (ret, new1, h1) \<Rightarrow>
                 if ret \<noteq> NNS_EDGE_ERROR_NONE then Inr (ret, new1, h1)
                 else
                   (case new1 of
                      None \<Rightarrow> Inl (BadPointer 0)
                    | Some copied \<Rightarrow>
                        (case as_data h1 copied of
                           Inr (Some cp) \<Rightarrow>
                             (let h2 = h1\<lparr>objs := (objs h1)(copied \<mapsto>
                                         EdgeData (cp\<lparr>ed_num := ed_num ed\<rparr>))\<rparr>
                              in case copy_entries h2 ed copied 0 of
                                   Inl f \<Rightarrow> Inl f
                                 | Inr h3 \<Rightarrow>
                                     (case as_data h3 copied of
                                        Inr (Some cp3) \<Rightarrow>
                                          (case nns_edge_metadata_copy (oom h3)
                                                  (Some (ed_metadata cp3)) (Some (ed_metadata ed)) of
                                             (ret2, meta2, al2) \<Rightarrow>
                                               Inr (ret2, new1,
                                                    h3\<lparr>objs := (objs h3)(copied \<mapsto>
                                                          EdgeData (put_metadata cp3 meta2)),
                                                       oom := al2\<rparr>))
                                      | _ \<Rightarrow> Inl (BadPointer copied)))
                         | _ \<Rightarrow> Inl (BadPointer copied)))))"

definition nns_edge_data_add ::
  "nat \<Rightarrow> heap \<Rightarrow> nat \<Rightarrow> nat \<Rightarrow> nat \<Rightarrow> callback option \<Rightarrow> fault + nns_edge_error_e \<times> heap" where
  "nns_edge_data_add limit h data_h data data_len destroy_cb =
     (case as_data h data_h of
        Inl f \<Rightarrow> Inl f
      | Inr None \<Rightarrow> Inr (NNS_EDGE_ERROR_INVALID_PARAMETER, h)
      | Inr (Some ed) \<Rightarrow>
          if ed_magic ed \<noteq> NNS_EDGE_MAGIC then Inr (NNS_EDGE_ERROR_INVALID_PARAMETER, h)
          else if ed_num ed \<ge> limit then Inr (NNS_EDGE_ERROR_INVALID_PARAMETER, h)
          else if data = 0 \<or> data_len \<le> 0 then Inr (NNS_EDGE_ERROR_INVALID_PARAMETER, h)
          else if length (ed_data ed) \<le> ed_num ed then Inl (BadIndex (ed_num ed))
          else Inr (NNS_EDGE_ERROR_NONE,
                    h\<lparr>objs := (objs h)(data_h \<mapsto> EdgeData
                          (ed\<lparr>ed_data := (ed_data ed)
                                 [ed_num ed := \<lparr>rd_data = data, rd_data_len = data_len,
                                                rd_destroy_cb = destroy_cb\<rparr>],
                              ed_num := ed_num ed + 1\<rparr>))\<rparr>))"

definition nns_edge_data_get ::
  "heap \<Rightarrow> nat \<Rightarrow> nat \<Rightarrow> nat option \<Rightarrow> nat option
     \<Rightarrow> fault + nns_edge_error_e \<times> nat option \<times> nat option" where
  "nns_edge_data_get h data_h index data data_len =
     (case as_data h data_h of
        Inl f \<Rightarrow> Inl f
      | Inr None \<Rightarrow> Inr (NNS_EDGE_ERROR_INVALID_PARAMETER, data, data_len)
      | Inr (Some ed) \<Rightarrow>
          if ed_magic ed \<noteq> NNS_EDGE_MAGIC then Inr (NNS_EDGE_ERROR_INVALID_PARAMETER, data, data_len)
          else if data = None \<or> data_len = None
          then Inr (NNS_EDGE_ERROR_INVALID_PARAMETER, data, data_len)
          else if index \<ge> ed_num ed then Inr (NNS_EDGE_ERROR_INVALID_PARAMETER, data, data_len)
          else if length (ed_data ed) \<le> index then Inl (BadIndex index)
          else Inr (NNS_EDGE_ERROR_NONE,
                    Some (rd_data (ed_data ed ! index)), Some (rd_data_len (ed_data ed ! index))))"

definition nns_edge_data_get_count ::
  "heap \<Rightarrow> nat \<Rightarrow> nat option \<Rightarrow> fault + nns_edge_error_e \<times> nat option" where
  "nns_edge_data_get_count h data_h count =
     (case as_data h data_h of
        Inl f \<Rightarrow> Inl f
      | Inr None \<Rightarrow> Inr (NNS_EDGE_ERROR_INVALID_PARAMETER, count)
      | Inr (Some ed) \<Rightarrow>
          if ed_magic ed \<noteq> NNS_EDGE_MAGIC then Inr (NNS_EDGE_ERROR_INVALID_PARAMETER, count)
          else if count = None then Inr (NNS_EDGE_ERROR_INVALID_PARAMETER, count)
          else Inr (NNS_EDGE_ERROR_NONE, Some (ed_num ed)))"

definition nns_edge_data_set_info ::
  "heap \<Rightarrow> nat \<Rightarrow> string option \<Rightarrow> string option \<Rightarrow> fault + nns_edge_error_e \<times> heap" where
  "nns_edge_data_set_info h data_h key val =
     (case as_data h data_h of
        Inl f \<Rightarrow> Inl f
      | Inr None \<Rightarrow> Inr (NNS_EDGE_ERROR_INVALID_PARAMETER, h)
      | Inr (Some ed) \<Rightarrow>
          if ed_magic ed \<noteq> NNS_EDGE_MAGIC then Inr (NNS_EDGE_ERROR_INVALID_PARAMETER, h)
          else if \<not> STR_IS_VALID key then Inr (NNS_EDGE_ERROR_INVALID_PARAMETER, h)
          else if \<not> STR_IS_VALID val then Inr (NNS_EDGE_ERROR_INVALID_PARAMETER, h)
          else
            (case nns_edge_metadata_set (oom h) (Some (ed_metadata ed)) key val of
               (ret, meta1, al1) \<Rightarrow>
                 Inr (ret, h\<lparr>objs := (objs h)(data_h \<mapsto> EdgeData (put_metadata ed meta1)),
                            oom := al1\<rparr>)))"

definition nns_edge_data_get_info ::
  "heap \<Rightarrow> nat \<Rightarrow> string option \<Rightarrow> string option option
     \<Rightarrow> fault + nns_edge_error_e \<times> string option option \<times> heap" where
  "nns_edge_data_get_info h data_h key val =
     (case as_data h data_h of
        Inl f \<Rightarrow> Inl f
      | Inr None \<Rightarrow> Inr (NNS_EDGE_ERROR_INVALID_PARAMETER, val, h)
      | Inr (Some ed) \<Rightarrow>
          if ed_magic ed \<noteq> NNS_EDGE_MAGIC then Inr (NNS_EDGE_ERROR_INVALID_PARAMETER, val, h)
          else if \<not> STR_IS_VALID key then Inr (NNS_EDGE_ERROR_INVALID_PARAMETER, val, h)
          else if val = None then Inr (NNS_EDGE_ERROR_INVALID_PARAMETER, val, h)
          else
            (case nns_edge_metadata_get (oom h) (Some (ed_metadata ed)) key val of
               (ret, val1, al1) \<Rightarrow> Inr (ret, val1, h\<lparr>oom := al1\<rparr>)))"

definition nns_edge_data_serialize_meta ::
  "heap \<Rightarrow> nat \<Rightarrow> string option option \<Rightarrow> nat option
     \<Rightarrow> fault + nns_edge_error_e \<times> string option option \<times> nat option \<times> heap" where
  "nns_edge_data_serialize_meta h data_h data data_len =
     (case as_data h data_h of
        Inl f \<Rightarrow> Inl f
      | Inr None \<Rightarrow> Inr (NNS_EDGE_ERROR_INVALID_PARAMETER, data, data_len, h)
      | Inr (Some ed) \<Rightarrow>
          if ed_magic ed \<noteq> NNS_EDGE_MAGIC
          then Inr (NNS_EDGE_ERROR_INVALID_PARAMETER, data, data_len, h)
          else
            (case nns_edge_metadata_serialize (oom h) (Some (ed_metadata ed)) data data_len of
               (ret, data1, data_len1, al1) \<Rightarrow> Inr (ret, data1, data_len1, h\<lparr>oom := al1\<rparr>)))"

definition nns_edge_data_deserialize_meta ::
  "heap \<Rightarrow> nat \<Rightarrow> string option \<Rightarrow> nat \<Rightarrow> fault + nns_edge_error_e \<times> heap" where
  "nns_edge_data_deserialize_meta h data_h data data_len =
     (case as_data h data_h of
        Inl f \<Rightarrow> Inl f
      | Inr None \<Rightarrow> Inr (NNS_EDGE_ERROR_INVALID_PARAMETER, h)
      | Inr (Some ed) \<Rightarrow>
          if ed_magic ed \<noteq> NNS_EDGE_MAGIC then Inr (NNS_EDGE_ERROR_INVALID_PARAMETER, h)
          else
            (case nns_edge_metadata_deserialize (oom h) (Some (ed_metadata ed)) data data_len of
               Inl f \<Rightarrow> Inl f
             | Inr (ret, meta1, al1) \<Rightarrow>
                 Inr (ret, h\<lparr>objs := (objs h)(data_h \<mapsto> EdgeData (put_metadata ed meta1)),
                            oom := al1\<rparr>)))"

subsection \<open>Reading an event\<close>

definition nns_edge_event_parse_new_data ::
  "nat \<Rightarrow> heap \<Rightarrow> nat \<Rightarrow> nat option \<Rightarrow> fault + nns_edge_error_e \<times> nat option \<times> heap" where
  "nns_edge_event_parse_new_data limit h event_h data_h =
     (case as_event h event_h of
        Inl f \<Rightarrow> Inl f
      | Inr None \<Rightarrow> Inr (NNS_EDGE_ERROR_INVALID_PARAMETER, data_h, h)
      | Inr (Some ee) \<Rightarrow>
          if ee_magic ee \<noteq> NNS_EDGE_MAGIC then Inr (NNS_EDGE_ERROR_INVALID_PARAMETER, data_h, h)
          else if data_h = None then Inr (NNS_EDGE_ERROR_INVALID_PARAMETER, data_h, h)
          else if ee_event ee \<noteq> NNS_EDGE_EVENT_NEW_DATA_RECEIVED
          then Inr (NNS_EDGE_ERROR_INVALID_PARAMETER, data_h, h)
          else nns_edge_data_copy limit h (rd_data (ee_data ee)) data_h)"

text \<open>
  \<^verbatim>\<open>nns_edge_strdup\<close> on the payload pointer reads the block there up to its NUL.
\<close>

definition nns_edge_event_parse_capability ::
  "heap \<Rightarrow> nat \<Rightarrow> string option option
     \<Rightarrow> fault + nns_edge_error_e \<times> string option option \<times> heap" where
  "nns_edge_event_parse_capability h event_h capability =
     (case as_event h event_h of
        Inl f \<Rightarrow> Inl f
      | Inr None \<Rightarrow> Inr (NNS_EDGE_ERROR_INVALID_PARAMETER, capability, h)
      | Inr (Some ee) \<Rightarrow>
          if ee_magic ee \<noteq> NNS_EDGE_MAGIC then Inr (NNS_EDGE_ERROR_INVALID_PARAMETER, capability, h)
          else if capability = None then Inr (NNS_EDGE_ERROR_INVALID_PARAMETER, capability, h)
          else if ee_event ee \<noteq> NNS_EDGE_EVENT_CAPABILITY
          then Inr (NNS_EDGE_ERROR_INVALID_PARAMETER, capability, h)
          else if rd_data (ee_data ee) = 0 then Inr (NNS_EDGE_ERROR_NONE, Some None, h)
          else
            (case objs h (rd_data (ee_data ee)) of
               Some (Bytes bs) \<Rightarrow>
                 if NUL \<in> set bs then
                   (case nns_edge_strdup (oom h) (Some bs) of
                      (s, al1) \<Rightarrow> Inr (NNS_EDGE_ERROR_NONE, Some s, h\<lparr>oom := al1\<rparr>))
                 else Inl (ReadPastEnd (length bs))
             | _ \<Rightarrow> Inl (BadPointer (rd_data (ee_data ee)))))"

subsection \<open>Notions used in the theorems\<close>

text \<open>The counter of a store is the number of its nodes, as an \<^verbatim>\<open>unsigned int\<close>.\<close>

definition counted :: "nns_edge_metadata_s \<Rightarrow> bool" where
  "counted m \<longleftrightarrow> list_len m = of_nat (length (list m))"

text \<open>A non-empty C string: no NUL among its characters.\<close>

definition c_string :: "string \<Rightarrow> bool" where
  "c_string s \<longleftrightarrow> s \<noteq> [] \<and> NUL \<notin> set s"

text \<open>The key of a node with upper-case letters folded, as \<^verbatim>\<open>strcasecmp\<close> compares it.\<close>

definition lower_key :: "string \<times> string \<Rightarrow> string" where
  "lower_key node = map tolower (fst node)"

text \<open>
  The store built from a list of pairs: \<^verbatim>\<open>nns_edge_metadata_init\<close>, then one
  \<^verbatim>\<open>nns_edge_metadata_set\<close> for each pair, no allocation being refused.
\<close>

definition store_of :: "(string \<times> string) list \<Rightarrow> nns_edge_metadata_s option" where
  "store_of kvs =
     foldl (\<lambda>meta kv. fst (snd (nns_edge_metadata_set [] meta (Some (fst kv)) (Some (snd kv)))))
       (snd (nns_edge_metadata_init (Some \<lparr>list = [], list_len = 0\<rparr>))) kvs"

text \<open>Appending a list of buffers, each with its address, length and destructor.\<close>

fun add_each ::
  "nat \<Rightarrow> heap \<Rightarrow> nat \<Rightarrow> (nat \<times> nat \<times> callback option) list
     \<Rightarrow> fault + nns_edge_error_e list \<times> heap" where
  "add_each limit h data_h [] = Inr ([], h)"
| "add_each limit h data_h (b # bufs) =
     (case nns_edge_data_add limit h data_h (fst b) (fst (snd b)) (snd (snd b)) of
        Inl f \<Rightarrow> Inl f
      | Inr (ret, h1) \<Rightarrow>
          (case add_each limit h1 data_h bufs of
             Inl f \<Rightarrow> Inl f
           | Inr (rets, h2) \<Rightarrow> Inr (ret # rets, h2)))"

text \<open>
  Example heaps. In \<open>empty_heap\<close> nothing is allocated; \<open>fresh_heap\<close> is what
  \<^verbatim>\<open>nns_edge_data_create\<close> makes of it for two entries. In \<open>buffer_heap\<close> the caller
  holds the two bytes \<open>AB\<close> at address 1, and an edge data object with room for two
  entries at address 2 has that buffer as its only entry, without a destructor, and the
  pair of \<open>k\<close> and \<open>v\<close> as metadata: the state after create, add and set_info.
\<close>

definition empty_heap :: heap where
  "empty_heap = \<lparr>objs = Map.empty, brk = 0, oom = [], calls = []\<rparr>"

definition fresh_heap :: heap where
  "fresh_heap =
     \<lparr>objs = [1 \<mapsto> EdgeData
                \<lparr>ed_magic = NNS_EDGE_MAGIC, ed_num = 0,
                 ed_data = [\<lparr>rd_data = 0, rd_data_len = 0, rd_destroy_cb = None\<rparr>,
                            \<lparr>rd_data = 0, rd_data_len = 0, rd_destroy_cb = None\<rparr>],
                 ed_metadata = \<lparr>list = [], list_len = 0\<rparr>\<rparr>],
      brk = 1, oom = [], calls = []\<rparr>"

definition buffer_heap :: heap where
  "buffer_heap =
     \<lparr>objs = [1 \<mapsto> Bytes ''AB'',
              2 \<mapsto> EdgeData
                \<lparr>ed_magic = NNS_EDGE_MAGIC, ed_num = 1,
                 ed_data = [\<lparr>rd_data = 1, rd_data_len = 2, rd_destroy_cb = None\<rparr>,
                            \<lparr>rd_data = 0, rd_data_len = 0, rd_destroy_cb = None\<rparr>],
                 ed_metadata = \<lparr>list = [(''k'', ''v'')], list_len = 1\<rparr>\<rparr>],
      brk = 2, oom = [], calls = []\<rparr>"

text \<open>
  In \<open>event_heap\<close> an event of the kind for new data, as
  \<^verbatim>\<open>nns_edge_event_create\<close> leaves it, is at address 1.
\<close>

definition event_heap :: heap where
  "event_heap =
     \<lparr>objs = [1 \<mapsto> EdgeEvent
                \<lparr>ee_magic = NNS_EDGE_MAGIC, ee_event = NNS_EDGE_EVENT_NEW_DATA_RECEIVED,
                 ee_data = \<lparr>rd_data = 0, rd_data_len = 0, rd_destroy_cb = None\<rparr>\<rparr>],
      brk = 1, oom = [], calls = []\<rparr>"

text \<open>
  In \<open>capability_heap\<close> the event at address 2 announces a capability; its payload
  is the string at address 1, which the event does not own.
\<close>

definition capability_heap :: heap where
  "capability_heap =
     \<lparr>objs = [1 \<mapsto> Bytes [CHR ''x'', CHR 0x00],
              2 \<mapsto> EdgeEvent
                \<lparr>ee_magic = NNS_EDGE_MAGIC, ee_event = NNS_EDGE_EVENT_CAPABILITY,
                 ee_data = \<lparr>rd_data = 1, rd_data_len = 2, rd_destroy_cb = None\<rparr>\<rparr>],
      brk = 2, oom = [], calls = []\<rparr>"

section \<open>Theorems\<close>

subsection \<open>Facts about C strings\<close>

lemma c_str_no_NUL: "NUL \<notin> set (c_str s)"
  unfolding c_str_def by (induction s) auto

lemma c_str_id: "NUL \<notin> set s \<Longrightarrow> c_str s = s"
  unfolding c_str_def by (induction s) auto

lemma c_str_idem: "c_str (c_str s) = c_str s"
  by (simp add: c_str_id c_str_no_NUL)

lemma c_str_append_NUL: "NUL \<notin> set s \<Longrightarrow> c_str (s @ NUL # t) = s"
  unfolding c_str_def by (induction s) auto

lemma c_string_c_str: "c_string s \<Longrightarrow> c_str s = s"
  by (simp add: c_string_def c_str_id)

lemma c_string_valid: "c_string s \<Longrightarrow> STR_IS_VALID (Some s)"
  by (simp add: STR_IS_VALID_def c_string_c_str) (simp add: c_string_def)

lemma take_strlen: "take (strlen s) (c_str s) = c_str s"
  by (simp add: strlen_def)

lemma nns_edge_strdup_Some:
  "nns_edge_strdup al (Some s) =
     (if fst (take_alloc al) then Some (c_str s) else None, snd (take_alloc al))"
  by (simp add: nns_edge_strdup_def nns_edge_strndup_def take_strlen split: prod.splits)

lemma of_char_tolower_NUL: "c \<noteq> NUL \<Longrightarrow> (of_char (tolower c) :: nat) \<noteq> 0"
proof -
  assume "c \<noteq> NUL"
  then have "(of_char c :: nat) \<noteq> of_char NUL" by simp
  then have c: "(of_char c :: nat) \<noteq> 0" by (simp add: NUL_def)
  show ?thesis
  proof (cases "65 \<le> (of_char c :: nat) \<and> (of_char c :: nat) \<le> 90")
    case True
    then have "tolower c = char_of ((of_char c :: nat) + 32)" by (simp add: tolower_def)
    moreover have "(of_char (char_of ((of_char c :: nat) + 32)) :: nat) = (of_char c + 32) mod 256"
      by simp
    ultimately show ?thesis using True by simp
  next
    case False
    then show ?thesis using c by (auto simp add: tolower_def Let_def)
  qed
qed

lemma strcasecmp_aux_zero:
  "NUL \<notin> set a \<Longrightarrow> NUL \<notin> set b \<Longrightarrow> strcasecmp_aux a b = 0 \<longleftrightarrow> map tolower a = map tolower b"
proof (induction a b rule: strcasecmp_aux.induct)
  case 1
  then show ?case by simp
next
  case (2 b bs)
  then show ?case using of_char_tolower_NUL [of b] by auto
next
  case (3 a as)
  then show ?case using of_char_tolower_NUL [of a] by auto
next
  case (4 a as b bs)
  have "tolower a \<noteq> tolower b \<Longrightarrow> int (of_char (tolower a)) - int (of_char (tolower b)) \<noteq> 0"
    by simp
  with 4 show ?case by auto
qed

lemma strcasecmp_zero: "strcasecmp a b = 0 \<longleftrightarrow> map tolower (c_str a) = map tolower (c_str b)"
  unfolding strcasecmp_def by (rule strcasecmp_aux_zero) (rule c_str_no_NUL)+

lemma strcasecmp_refl: "strcasecmp k (c_str k) = 0"
  by (simp add: strcasecmp_zero c_str_idem)

lemma strcasecmp_c_string:
  "c_string a \<Longrightarrow> c_string b \<Longrightarrow> strcasecmp a b = 0 \<longleftrightarrow> map tolower a = map tolower b"
  by (simp add: strcasecmp_zero c_string_c_str)

lemma char_eq_char_of: "c = char_of n \<longleftrightarrow> take_bit 8 n = of_char c"
  using char_of_eq_iff [of n c] by auto

subsection \<open>Evaluation on concrete inputs\<close>

lemmas metadata_eval =
  nns_edge_metadata_set_def nns_edge_metadata_get_def nns_edge_metadata_find_def
  nns_edge_metadata_init_def nns_edge_metadata_free_def nns_edge_metadata_serialize_def
  nns_edge_metadata_deserialize_def nns_edge_metadata_copy_def
  STR_IS_VALID_def c_str_def NUL_def strlen_def nns_edge_strdup_def nns_edge_strndup_def
  strcasecmp_def tolower_def char_of_eq_iff char_eq_char_of
  store_uint_def load_uint_def buf_uint_def buf_str_def deserialize_loop.simps

lemmas heap_eval =
  nns_edge_data_copy_def nns_edge_data_create_def nns_edge_data_add_def nns_edge_data_destroy_def
  nns_edge_data_set_info_def nns_edge_data_get_count_def
  nns_edge_event_create_def nns_edge_event_destroy_def nns_edge_event_parse_capability_def
  nns_edge_event_parse_new_data_def
  as_data_def as_event_def malloc_def free_def SAFE_FREE_def nns_edge_free_def invoke_def
  put_metadata_def nns_edge_memdup_def copy_entries.simps destroy_entries.simps
  NNS_EDGE_MAGIC_def NNS_EDGE_MAGIC_DEAD_def
  NNS_EDGE_EVENT_UNKNOWN_def NNS_EDGE_EVENT_CAPABILITY_def NNS_EDGE_EVENT_NEW_DATA_RECEIVED_def
  empty_heap_def buffer_heap_def eval_nat_numeral

text \<open>
  \<open>fresh_heap\<close> is what create produces in the empty heap, and \<open>buffer_heap\<close>
  what create, add and set_info produce when the caller holds the two bytes at address 1.
\<close>

lemma buffer_heap_reached:
  "nns_edge_data_create 2 empty_heap (Some 0) = (NNS_EDGE_ERROR_NONE, Some 1, fresh_heap)"
  "nns_edge_data_create 2 (empty_heap\<lparr>objs := [1 \<mapsto> Bytes ''AB''], brk := 1\<rparr>) (Some 0) =
     (NNS_EDGE_ERROR_NONE, Some 2,
      buffer_heap\<lparr>objs := (objs buffer_heap)(2 \<mapsto> EdgeData
        \<lparr>ed_magic = NNS_EDGE_MAGIC, ed_num = 0,
         ed_data = [\<lparr>rd_data = 0, rd_data_len = 0, rd_destroy_cb = None\<rparr>,
                    \<lparr>rd_data = 0, rd_data_len = 0, rd_destroy_cb = None\<rparr>],
         ed_metadata = \<lparr>list = [], list_len = 0\<rparr>\<rparr>)\<rparr>)"
  "nns_edge_data_add 2
     (buffer_heap\<lparr>objs := (objs buffer_heap)(2 \<mapsto> EdgeData
        \<lparr>ed_magic = NNS_EDGE_MAGIC, ed_num = 0,
         ed_data = [\<lparr>rd_data = 0, rd_data_len = 0, rd_destroy_cb = None\<rparr>,
                    \<lparr>rd_data = 0, rd_data_len = 0, rd_destroy_cb = None\<rparr>],
         ed_metadata = \<lparr>list = [], list_len = 0\<rparr>\<rparr>)\<rparr>) 2 1 2 None =
   Inr (NNS_EDGE_ERROR_NONE,
     buffer_heap\<lparr>objs := (objs buffer_heap)(2 \<mapsto> EdgeData
        \<lparr>ed_magic = NNS_EDGE_MAGIC, ed_num = 1,
         ed_data = [\<lparr>rd_data = 1, rd_data_len = 2, rd_destroy_cb = None\<rparr>,
                    \<lparr>rd_data = 0, rd_data_len = 0, rd_destroy_cb = None\<rparr>],
         ed_metadata = \<lparr>list = [], list_len = 0\<rparr>\<rparr>)\<rparr>)"
  "nns_edge_data_set_info
     (buffer_heap\<lparr>objs := (objs buffer_heap)(2 \<mapsto> EdgeData
        \<lparr>ed_magic = NNS_EDGE_MAGIC, ed_num = 1,
         ed_data = [\<lparr>rd_data = 1, rd_data_len = 2, rd_destroy_cb = None\<rparr>,
                    \<lparr>rd_data = 0, rd_data_len = 0, rd_destroy_cb = None\<rparr>],
         ed_metadata = \<lparr>list = [], list_len = 0\<rparr>\<rparr>)\<rparr>) 2 (Some ''k'') (Some ''v'') =
   Inr (NNS_EDGE_ERROR_NONE, buffer_heap)"
  by (simp_all add: heap_eval fresh_heap_def metadata_eval)

subsection \<open>Set and get\<close>

lemma find_node_Some:
  "find_node xs k = Some i \<Longrightarrow> i < length xs \<and> strcasecmp k (fst (xs ! i)) = 0"
proof (induction xs arbitrary: i)
  case Nil
  then show ?case by simp
next
  case (Cons x xs)
  then show ?case by (cases i) (auto split: if_splits)
qed

lemma find_node_keys:
  "map fst xs = map fst ys \<Longrightarrow> find_node xs k = find_node ys k"
proof (induction xs arbitrary: ys)
  case Nil
  then show ?case by simp
next
  case (Cons x xs)
  then obtain y ys' where "ys = y # ys'" by (cases ys) auto
  with Cons show ?case by auto
qed

lemma map_fst_update: "i < length xs \<Longrightarrow> map fst (xs[i := (fst (xs ! i), v)]) = map fst xs"
  by (simp add: map_update list_update_same_conv)

lemma find_node_strcasecmp:
  "strcasecmp k2 k1 = 0 \<Longrightarrow> find_node xs k2 = find_node xs k1"
  by (induction xs) (auto simp add: strcasecmp_zero)

lemma find_node_None:
  "find_node xs k = None \<longleftrightarrow> (\<forall>x\<in>set xs. strcasecmp k (fst x) \<noteq> 0)"
  by (induction xs) auto

text \<open>What a successful set leaves: a node that matches the key and holds the value, and
  either the same nodes count or one more.\<close>

lemma set_result:
  assumes "nns_edge_metadata_set al (Some m) (Some key) (Some val) = (NNS_EDGE_ERROR_NONE, meta1, al1)"
  shows "\<exists>m1 i. meta1 = Some m1 \<and> find_node (list m1) key = Some i \<and> i < length (list m1)
           \<and> snd (list m1 ! i) = c_str val
           \<and> (case find_node (list m) key of
                Some j \<Rightarrow> length (list m1) = length (list m) \<and> list_len m1 = list_len m
              | None \<Rightarrow> list m1 = (c_str key, c_str val) # list m \<and> list_len m1 = list_len m + 1)"
proof (cases "find_node (list m) key")
  case None
  with assms show ?thesis
    by (auto simp add: nns_edge_metadata_set_def nns_edge_metadata_find_def nns_edge_strdup_Some
        strcasecmp_refl split: if_splits prod.splits option.splits)
next
  case (Some j)
  then have j: "j < length (list m)" by (simp add: find_node_Some)
  from assms Some have m1: "meta1 = Some (m\<lparr>list := (list m)[j := (fst (list m ! j), c_str val)]\<rparr>)"
    by (auto simp add: nns_edge_metadata_set_def nns_edge_metadata_find_def nns_edge_strdup_Some
        split: if_splits prod.splits option.splits)
  have "find_node ((list m)[j := (fst (list m ! j), c_str val)]) key = Some j"
    using find_node_keys [OF map_fst_update [OF j], of "c_str val" key] Some by simp
  with m1 j Some show ?thesis by simp
qed

lemma get_after_set:
  assumes "nns_edge_metadata_set al (Some m) (Some key) (Some val) = (NNS_EDGE_ERROR_NONE, meta1, al1)"
    and "fst (take_alloc al2)"
  shows "nns_edge_metadata_get al2 meta1 (Some key) (Some old) =
           (NNS_EDGE_ERROR_NONE, Some (Some (c_str val)), snd (take_alloc al2))"
proof -
  from set_result [OF assms(1)] obtain m1 i where
    m1: "meta1 = Some m1" "find_node (list m1) key = Some i" "snd (list m1 ! i) = c_str val"
    by blast
  from assms(1) have "STR_IS_VALID (Some key)"
    by (auto simp add: nns_edge_metadata_set_def split: if_splits)
  with m1 assms(2) show ?thesis
    by (simp add: nns_edge_metadata_get_def nns_edge_metadata_find_def nns_edge_strdup_Some c_str_idem)
qed

lemma get_after_set_variant:
  assumes "nns_edge_metadata_set al (Some m) (Some key) (Some val) = (NNS_EDGE_ERROR_NONE, meta1, al1)"
    and "map tolower (c_str key2) = map tolower (c_str key)"
    and "fst (take_alloc al2)"
  shows "nns_edge_metadata_get al2 meta1 (Some key2) (Some old) =
           (NNS_EDGE_ERROR_NONE, Some (Some (c_str val)), snd (take_alloc al2))"
proof -
  from set_result [OF assms(1)] obtain m1 i where
    m1: "meta1 = Some m1" "find_node (list m1) key = Some i" "snd (list m1 ! i) = c_str val"
    by blast
  from assms(1) have "c_str key \<noteq> []"
    by (auto simp add: nns_edge_metadata_set_def STR_IS_VALID_def split: if_splits)
  with assms(2) have v: "STR_IS_VALID (Some key2)" by (auto simp add: STR_IS_VALID_def)
  from assms(2) have "strcasecmp key2 key = 0" by (simp add: strcasecmp_zero)
  then have "find_node (list m1) key2 = find_node (list m1) key" by (rule find_node_strcasecmp)
  with m1 v assms(3) show ?thesis
    by (simp add: nns_edge_metadata_get_def nns_edge_metadata_find_def nns_edge_strdup_Some c_str_idem)
qed

text \<open>
  C4. After a successful set of a key, a get of that key returns the value (the C string
  at \<open>val\<close>) whenever the copy that get makes is granted. A second successful set with
  a spelling of the key that differs in letter case only leaves the number of nodes and
  the counter as they were, and a get then returns the second value; on a store that was
  empty the store has one node after both.
\<close>

theorem metadata_set_get_overwrite:
  assumes "nns_edge_metadata_set al (Some m) (Some key) (Some val) = (NNS_EDGE_ERROR_NONE, meta1, al1)"
  shows "(fst (take_alloc al3) \<longrightarrow>
            nns_edge_metadata_get al3 meta1 (Some key) (Some old) =
              (NNS_EDGE_ERROR_NONE, Some (Some (c_str val)), snd (take_alloc al3)))
       \<and> (map tolower (c_str key2) = map tolower (c_str key)
            \<and> nns_edge_metadata_set al1 meta1 (Some key2) (Some val2) = (NNS_EDGE_ERROR_NONE, meta2, al2)
          \<longrightarrow> (\<exists>m1 m2. meta1 = Some m1 \<and> meta2 = Some m2
                  \<and> length (list m2) = length (list m1) \<and> list_len m2 = list_len m1
                  \<and> (list m = [] \<and> list_len m = 0 \<longrightarrow> length (list m2) = 1 \<and> list_len m2 = 1))
              \<and> (fst (take_alloc al3) \<longrightarrow>
                    nns_edge_metadata_get al3 meta2 (Some key) (Some old) =
                      (NNS_EDGE_ERROR_NONE, Some (Some (c_str val2)), snd (take_alloc al3))))"
proof (intro conjI impI)
  assume "fst (take_alloc al3)"
  with assms show "nns_edge_metadata_get al3 meta1 (Some key) (Some old) =
      (NNS_EDGE_ERROR_NONE, Some (Some (c_str val)), snd (take_alloc al3))"
    by (rule get_after_set)
next
  assume a: "map tolower (c_str key2) = map tolower (c_str key)
     \<and> nns_edge_metadata_set al1 meta1 (Some key2) (Some val2) = (NNS_EDGE_ERROR_NONE, meta2, al2)"
  from set_result [OF assms] obtain m1 i where
    m1: "meta1 = Some m1" "find_node (list m1) key = Some i"
    and first: "case find_node (list m) key of
                Some j \<Rightarrow> length (list m1) = length (list m) \<and> list_len m1 = list_len m
              | None \<Rightarrow> list m1 = (c_str key, c_str val) # list m \<and> list_len m1 = list_len m + 1"
    by blast
  from a have "strcasecmp key2 key = 0" by (simp add: strcasecmp_zero)
  then have f: "find_node (list m1) key2 = Some i" using m1(2) by (simp add: find_node_strcasecmp)
  from a m1 have s2: "nns_edge_metadata_set al1 (Some m1) (Some key2) (Some val2) = (NNS_EDGE_ERROR_NONE, meta2, al2)"
    by simp
  from set_result [OF s2] f obtain m2 where
    m2: "meta2 = Some m2" "length (list m2) = length (list m1)" "list_len m2 = list_len m1"
    by auto
  have "list m = [] \<and> list_len m = 0 \<longrightarrow> length (list m2) = 1 \<and> list_len m2 = 1"
    using first m2 by auto
  with m1 m2 show "\<exists>m1 m2. meta1 = Some m1 \<and> meta2 = Some m2
                  \<and> length (list m2) = length (list m1) \<and> list_len m2 = list_len m1
                  \<and> (list m = [] \<and> list_len m = 0 \<longrightarrow> length (list m2) = 1 \<and> list_len m2 = 1)"
    by simp
  assume g: "fst (take_alloc al3)"
  from a have "map tolower (c_str key) = map tolower (c_str key2)" by simp
  from get_after_set_variant [OF s2 this g] m1
  show "nns_edge_metadata_get al3 meta2 (Some key) (Some old) =
      (NNS_EDGE_ERROR_NONE, Some (Some (c_str val2)), snd (take_alloc al3))"
    by simp
qed

theorem metadata_set_get_overwrite_witness:
  "nns_edge_metadata_set [] (Some \<lparr>list = [], list_len = 0\<rparr>) (Some ''Key'') (Some ''one'') =
     (NNS_EDGE_ERROR_NONE, Some \<lparr>list = [(''Key'', ''one'')], list_len = 1\<rparr>, [])
   \<and> nns_edge_metadata_get [] (Some \<lparr>list = [(''Key'', ''one'')], list_len = 1\<rparr>) (Some ''Key'') (Some None) =
       (NNS_EDGE_ERROR_NONE, Some (Some ''one''), [])
   \<and> nns_edge_metadata_set [] (Some \<lparr>list = [(''Key'', ''one'')], list_len = 1\<rparr>) (Some ''kEY'') (Some ''two'') =
       (NNS_EDGE_ERROR_NONE, Some \<lparr>list = [(''Key'', ''two'')], list_len = 1\<rparr>, [])
   \<and> nns_edge_metadata_get [] (Some \<lparr>list = [(''Key'', ''two'')], list_len = 1\<rparr>) (Some ''Key'') (Some None) =
       (NNS_EDGE_ERROR_NONE, Some (Some ''two''), [])"
proof -
  have s1: "nns_edge_metadata_set [] (Some \<lparr>list = [], list_len = 0\<rparr>) (Some ''Key'') (Some ''one'') =
     (NNS_EDGE_ERROR_NONE, Some \<lparr>list = [(''Key'', ''one'')], list_len = 1\<rparr>, [])"
    by (simp add: nns_edge_metadata_set_def STR_IS_VALID_def c_str_def NUL_def
        nns_edge_metadata_find_def nns_edge_strdup_def nns_edge_strndup_def strlen_def)
  have s2: "nns_edge_metadata_set [] (Some \<lparr>list = [(''Key'', ''one'')], list_len = 1\<rparr>) (Some ''kEY'') (Some ''two'') =
       (NNS_EDGE_ERROR_NONE, Some \<lparr>list = [(''Key'', ''two'')], list_len = 1\<rparr>, [])"
    by (simp add: nns_edge_metadata_set_def STR_IS_VALID_def c_str_def NUL_def
        nns_edge_metadata_find_def nns_edge_strdup_def nns_edge_strndup_def strlen_def
        strcasecmp_def tolower_def char_of_eq_iff char_eq_char_of)
  have v: "map tolower (c_str ''kEY'') = map tolower (c_str ''Key'')"
    by code_simp
  from metadata_set_get_overwrite [OF s1, of "[]" None "''kEY''" "''two''"
      "Some \<lparr>list = [(''Key'', ''two'')], list_len = 1\<rparr>" "[]"] s1 s2 v
  show ?thesis by (simp add: c_str_def NUL_def)
qed

subsection \<open>The counter of a store\<close>

lemma set_counted:
  assumes "counted m"
  shows "\<exists>ret m1 al1. nns_edge_metadata_set al (Some m) key val = (ret, Some m1, al1) \<and> counted m1"
  using assms
  by (auto simp add: nns_edge_metadata_set_def counted_def split: option.splits prod.splits)

lemma set_counted':
  "counted m \<Longrightarrow> nns_edge_metadata_set al (Some m) key val = (ret, meta1, al1)
     \<Longrightarrow> \<exists>m1. meta1 = Some m1 \<and> counted m1"
  using set_counted [of m al key val] by auto

lemma free_counted:
  "\<exists>m1. nns_edge_metadata_free (Some m) = (NNS_EDGE_ERROR_NONE, Some m1) \<and> counted m1 \<and> list m1 = []"
  by (simp add: nns_edge_metadata_free_def counted_def)

lemma copy_nodes_counted:
  "counted t \<Longrightarrow> copy_nodes al (Some t) nodes = (ret, tmp1, al1)
     \<Longrightarrow> \<exists>t1. tmp1 = Some t1 \<and> counted t1"
proof (induction nodes arbitrary: al t)
  case Nil
  then show ?case by auto
next
  case (Cons node nodes)
  obtain r tm a where s: "nns_edge_metadata_set al (Some t) (Some (fst node)) (Some (snd node)) = (r, tm, a)"
    by (cases "nns_edge_metadata_set al (Some t) (Some (fst node)) (Some (snd node))") auto
  from set_counted' [OF Cons.prems(1) s] obtain t1 where t1: "tm = Some t1" "counted t1" by blast
  show ?case
  proof (cases "r = NNS_EDGE_ERROR_NONE")
    case True
    with Cons.prems(2) s t1 have "copy_nodes a (Some t1) nodes = (ret, tmp1, al1)" by simp
    from Cons.IH [OF t1(2) this] show ?thesis .
  next
    case False
    with Cons.prems(2) s t1 show ?thesis
      using free_counted [of t1] by auto
  qed
qed

lemma copy_counted:
  assumes "counted d" and "nns_edge_metadata_copy al (Some d) src = (ret, dest1, al1)"
  shows "\<exists>d1. dest1 = Some d1 \<and> counted d1"
proof (cases src)
  case None
  with assms show ?thesis by (auto simp add: nns_edge_metadata_copy_def)
next
  case (Some s)
  have c0: "counted \<lparr>list = [], list_len = 0\<rparr>" by (simp add: counted_def)
  obtain r t a where cn: "copy_nodes al (Some \<lparr>list = [], list_len = 0\<rparr>) (list s) = (r, t, a)"
    by (cases "copy_nodes al (Some \<lparr>list = [], list_len = 0\<rparr>) (list s)") auto
  from copy_nodes_counted [OF c0 cn] obtain t1 where "t = Some t1" "counted t1" by blast
  with assms Some cn show ?thesis
    by (auto simp add: nns_edge_metadata_copy_def nns_edge_metadata_init_def split: if_splits)
qed

lemma buf_str_bound: "buf_str buf cur = Inr key \<Longrightarrow> cur + length key < length buf"
proof -
  assume "buf_str buf cur = Inr key"
  then have n: "NUL \<in> set (drop cur buf)" and k: "key = c_str (drop cur buf)"
    by (auto simp add: buf_str_def split: if_splits)
  have "NUL \<in> set xs \<Longrightarrow> length (takeWhile (\<lambda>c. c \<noteq> NUL) xs) < length xs" for xs
    by (induction xs) auto
  from this [OF n] k show ?thesis by (simp add: c_str_def)
qed

lemma deserialize_loop_step:
  assumes "buf_str (take data_len data) cur = Inr key"
    and "buf_str (take data_len data) (cur + (length key + 1)) = Inr val"
    and "nns_edge_metadata_set al meta (Some key) (Some val) = (r, tm, a)"
  shows "deserialize_loop al meta data data_len tot cur =
           (if r \<noteq> NNS_EDGE_ERROR_NONE then Inr (r, snd (nns_edge_metadata_free tm), a)
            else deserialize_loop a tm data data_len tot (cur + (length key + 1) + (length val + 1)))"
proof -
  from buf_str_bound [OF assms(1)] have "cur < data_len" by simp
  with assms show ?thesis by (simp add: deserialize_loop.simps [of al meta])
qed

lemma deserialize_loop_counted:
  "counted m \<Longrightarrow> deserialize_loop al (Some m) data data_len tot cur = Inr (ret, meta1, al1)
     \<Longrightarrow> \<exists>m1. meta1 = Some m1 \<and> counted m1"
proof (induction "data_len - cur" arbitrary: al m cur rule: less_induct)
  case less
  show ?case
  proof (cases "cur < data_len \<or> list_len m < tot")
    case False
    with less.prems show ?thesis by (auto simp add: deserialize_loop.simps)
  next
    case True
    from True less.prems(2) obtain key where key: "buf_str (take data_len data) cur = Inr key"
      by (cases "buf_str (take data_len data) cur") (auto simp add: deserialize_loop.simps)
    from True less.prems(2) key obtain val
      where val: "buf_str (take data_len data) (cur + (length key + 1)) = Inr val"
      by (cases "buf_str (take data_len data) (cur + (length key + 1))")
        (auto simp add: deserialize_loop.simps)
    obtain r tm a where s: "nns_edge_metadata_set al (Some m) (Some key) (Some val) = (r, tm, a)"
      by (cases "nns_edge_metadata_set al (Some m) (Some key) (Some val)") auto
    from set_counted' [OF less.prems(1) s] obtain m1 where m1: "tm = Some m1" "counted m1" by blast
    note step = deserialize_loop_step [OF key val s, of tot]
    show ?thesis
    proof (cases "r = NNS_EDGE_ERROR_NONE")
      case False
      with less.prems(2) step m1 show ?thesis
        using free_counted [of m1] by auto
    next
      case r: True
      from buf_str_bound [OF key] have "cur + length key < data_len"
        by simp
      then have d: "data_len - (cur + (length key + 1) + (length val + 1)) < data_len - cur"
        by linarith
      from less.prems(2) step r m1
      have "deserialize_loop a (Some m1) data data_len tot (cur + (length key + 1) + (length val + 1))
              = Inr (ret, meta1, al1)"
        by simp
      from less.hyps [OF d m1(2) this] show ?thesis .
    qed
  qed
qed

lemma deserialize_counted:
  assumes "nns_edge_metadata_deserialize al (Some m) data data_len = Inr (ret, meta1, al1)"
    and "counted m"
  shows "\<exists>m1. meta1 = Some m1 \<and> counted m1"
proof (cases "data = None \<or> data_len \<le> 0")
  case True
  with assms show ?thesis
    by (auto simp add: nns_edge_metadata_deserialize_def split: option.splits)
next
  case False
  then obtain bytes where b: "data = Some bytes" "0 < data_len" by auto
  have c0: "counted (m\<lparr>list_len := 0, list := []\<rparr>)" by (simp add: counted_def)
  from assms(1) b obtain tot where
    "deserialize_loop al (Some (m\<lparr>list_len := 0, list := []\<rparr>)) bytes data_len tot 4
       = Inr (ret, meta1, al1)"
    by (auto simp add: nns_edge_metadata_deserialize_def nns_edge_metadata_free_def
        split: sum.splits)
  from deserialize_loop_counted [OF c0 this] show ?thesis .
qed

lemma base256: "(n::nat) mod 256 + 256 * (n div 256 mod 256)
      + 65536 * (n div 65536 mod 256) + 16777216 * (n div 16777216) = n"
proof -
  define x1 where "x1 = n div 256"
  define x2 where "x2 = x1 div 256"
  define x3 where "x3 = x2 div 256"
  have a: "n div 65536 = x2" by (simp add: x1_def x2_def div_mult2_eq)
  have b: "n div 16777216 = x3" by (simp add: x1_def x2_def x3_def div_mult2_eq)
  have 0: "n = n mod 256 + 256 * x1" by (simp add: x1_def)
  have 1: "x1 = x1 mod 256 + 256 * x2" by (simp add: x2_def)
  have 2: "x2 = x2 mod 256 + 256 * x3" by (simp add: x3_def)
  have "n mod 256 + 256 * (x1 mod 256) + 65536 * (x2 mod 256) + 16777216 * x3 = n"
    using 0 1 2 by linarith
  then show ?thesis by (simp add: a b x1_def [symmetric])
qed

lemma load_store_uint: "load_uint (store_uint w @ bs) = w"
proof -
  have "unat w < 2 ^ 32" using unsigned_less [of w, where ?'a = nat] by simp
  then have "unat w div 16777216 mod 256 = unat w div 16777216" by simp
  then show ?thesis
    using base256 [of "unat w"] by (simp add: load_uint_def store_uint_def)
qed

lemma length_store_uint: "length (store_uint w) = 4"
  by (simp add: store_uint_def)

lemma serialized_size_eq: "serialized_size nodes n = n + length (write_nodes nodes)"
  by (induction nodes arbitrary: n) (auto simp add: strlen_def)

text \<open>
  C10. The counter equals the number of nodes, as an \<^verbatim>\<open>unsigned int\<close>, after init and
  free, and stays so through set, copy and deserialize, whatever they return; get and
  serialize do not write to the store. The count field of a serialized store is the
  number of the pairs that follow it. With fewer than \<open>2 ^ 32\<close> nodes the two numbers
  are the same natural number.
\<close>

theorem list_len_counts_nodes:
  assumes "counted m"
  shows "(\<exists>m1. nns_edge_metadata_init (Some x) = (NNS_EDGE_ERROR_NONE, Some m1) \<and> counted m1)
       \<and> (\<exists>m1. nns_edge_metadata_free (Some x) = (NNS_EDGE_ERROR_NONE, Some m1) \<and> counted m1)
       \<and> (\<exists>ret m1 al1. nns_edge_metadata_set al (Some m) key val = (ret, Some m1, al1) \<and> counted m1)
       \<and> (\<exists>ret m1 al1. nns_edge_metadata_copy al (Some m) src = (ret, Some m1, al1) \<and> counted m1)
       \<and> (nns_edge_metadata_deserialize al (Some m) data data_len = Inr (ret, meta1, al1)
            \<longrightarrow> (\<exists>m1. meta1 = Some m1 \<and> counted m1))
       \<and> (nns_edge_metadata_serialize al (Some m) (Some p) (Some q) =
              (NNS_EDGE_ERROR_NONE, Some (Some blob), n, al1)
            \<longrightarrow> load_uint blob = of_nat (length (list m)) \<and> drop 4 blob = write_nodes (list m))
       \<and> (length (list m) < 2 ^ 32 \<longrightarrow> unat (list_len m) = length (list m))"
proof (intro conjI impI)
  show "\<exists>m1. nns_edge_metadata_init (Some x) = (NNS_EDGE_ERROR_NONE, Some m1) \<and> counted m1"
    by (simp add: nns_edge_metadata_init_def counted_def)
  show "\<exists>m1. nns_edge_metadata_free (Some x) = (NNS_EDGE_ERROR_NONE, Some m1) \<and> counted m1"
    using free_counted [of x] by blast
  show "\<exists>ret m1 al1. nns_edge_metadata_set al (Some m) key val = (ret, Some m1, al1) \<and> counted m1"
    using assms by (rule set_counted)
  show "\<exists>ret m1 al1. nns_edge_metadata_copy al (Some m) src = (ret, Some m1, al1) \<and> counted m1"
    using copy_counted [OF assms, of al src]
    by (cases "nns_edge_metadata_copy al (Some m) src") auto
  show "\<exists>m1. meta1 = Some m1 \<and> counted m1"
    if "nns_edge_metadata_deserialize al (Some m) data data_len = Inr (ret, meta1, al1)"
    using that assms by (rule deserialize_counted)
  show "load_uint blob = of_nat (length (list m))" and "drop 4 blob = write_nodes (list m)"
    if "nns_edge_metadata_serialize al (Some m) (Some p) (Some q) =
          (NNS_EDGE_ERROR_NONE, Some (Some blob), n, al1)"
  proof -
    from that have "blob = store_uint (list_len m) @ write_nodes (list m)"
      by (auto simp add: nns_edge_metadata_serialize_def split: if_splits prod.splits)
    then show "load_uint blob = of_nat (length (list m))" and "drop 4 blob = write_nodes (list m)"
      using assms by (simp_all add: load_store_uint length_store_uint counted_def)
  qed
  show "unat (list_len m) = length (list m)" if "length (list m) < 2 ^ 32"
    using that assms by (simp add: counted_def unat_of_nat)
qed

theorem list_len_counts_nodes_witness:
  "counted \<lparr>list = [(''k'', ''v'')], list_len = 1\<rparr>
   \<and> nns_edge_metadata_set [] (Some \<lparr>list = [(''k'', ''v'')], list_len = 1\<rparr>) (Some ''j'') (Some ''w'') =
       (NNS_EDGE_ERROR_NONE, Some \<lparr>list = [(''j'', ''w''), (''k'', ''v'')], list_len = 2\<rparr>, [])
   \<and> counted \<lparr>list = [(''j'', ''w''), (''k'', ''v'')], list_len = 2\<rparr>
   \<and> unat (list_len \<lparr>list = [(''k'', ''v'')], list_len = 1\<rparr>) = length (list \<lparr>list = [(''k'', ''v'')], list_len = 1\<rparr>)"
proof -
  have c: "counted \<lparr>list = [(''k'', ''v'')], list_len = 1\<rparr>"
    by (simp add: counted_def)
  have s: "nns_edge_metadata_set [] (Some \<lparr>list = [(''k'', ''v'')], list_len = 1\<rparr>) (Some ''j'') (Some ''w'') =
       (NNS_EDGE_ERROR_NONE, Some \<lparr>list = [(''j'', ''w''), (''k'', ''v'')], list_len = 2\<rparr>, [])"
    by (simp add: metadata_eval)
  from list_len_counts_nodes [OF c, of _ "[]" "Some ''j''" "Some ''w''"] s c
  show ?thesis by auto
qed

subsection \<open>The serialized form\<close>

text \<open>
  C6. Serializing an empty store gives success, no block and length 0. The store built
  from the one pair of \<open>k\<close> and \<open>v\<close> serializes to the eight bytes 1, 0, 0, 0,
  \<open>k\<close>, 0, \<open>v\<close>, 0; deserializing these into a fresh store succeeds, and a get
  of \<open>k\<close> on the result returns \<open>v\<close>. The same through an edge data object:
  the metadata of the object in \<open>buffer_heap\<close> serializes to these bytes, and after
  deserializing them into the fresh object of \<open>fresh_heap\<close> its info for \<open>k\<close>
  is \<open>v\<close>.
\<close>

theorem serialize_empty_and_single_pair:
  "nns_edge_metadata_serialize al (snd (nns_edge_metadata_init (Some m))) (Some x) (Some y) =
     (NNS_EDGE_ERROR_NONE, Some None, Some 0, al)
   \<and> store_of [(''k'', ''v'')] = Some \<lparr>list = [(''k'', ''v'')], list_len = 1\<rparr>
   \<and> nns_edge_metadata_serialize [] (store_of [(''k'', ''v'')]) (Some None) (Some 0) =
       (NNS_EDGE_ERROR_NONE,
        Some (Some [CHR 0x01, CHR 0x00, CHR 0x00, CHR 0x00, CHR ''k'', CHR 0x00, CHR ''v'', CHR 0x00]),
        Some 8, [])
   \<and> nns_edge_metadata_deserialize [] (snd (nns_edge_metadata_init (Some m)))
         (Some [CHR 0x01, CHR 0x00, CHR 0x00, CHR 0x00, CHR ''k'', CHR 0x00, CHR ''v'', CHR 0x00]) 8 =
       Inr (NNS_EDGE_ERROR_NONE, Some \<lparr>list = [(''k'', ''v'')], list_len = 1\<rparr>, [])
   \<and> nns_edge_metadata_get [] (Some \<lparr>list = [(''k'', ''v'')], list_len = 1\<rparr>) (Some ''k'') (Some None) =
       (NNS_EDGE_ERROR_NONE, Some (Some ''v''), [])
   \<and> nns_edge_data_serialize_meta buffer_heap 2 (Some None) (Some 0) =
       Inr (NNS_EDGE_ERROR_NONE,
            Some (Some [CHR 0x01, CHR 0x00, CHR 0x00, CHR 0x00, CHR ''k'', CHR 0x00, CHR ''v'', CHR 0x00]),
            Some 8, buffer_heap)
   \<and> (\<exists>h1. nns_edge_data_deserialize_meta fresh_heap 1
               (Some [CHR 0x01, CHR 0x00, CHR 0x00, CHR 0x00, CHR ''k'', CHR 0x00, CHR ''v'', CHR 0x00]) 8 =
             Inr (NNS_EDGE_ERROR_NONE, h1)
           \<and> nns_edge_data_get_info h1 1 (Some ''k'') (Some None) =
               Inr (NNS_EDGE_ERROR_NONE, Some (Some ''v''), h1))"
proof (intro conjI)
  show "nns_edge_metadata_serialize al (snd (nns_edge_metadata_init (Some m))) (Some x) (Some y) =
     (NNS_EDGE_ERROR_NONE, Some None, Some 0, al)"
    by (simp add: nns_edge_metadata_serialize_def nns_edge_metadata_init_def)
  show st: "store_of [(''k'', ''v'')] = Some \<lparr>list = [(''k'', ''v'')], list_len = 1\<rparr>"
    by (simp add: store_of_def metadata_eval)
  show "nns_edge_metadata_serialize [] (store_of [(''k'', ''v'')]) (Some None) (Some 0) =
       (NNS_EDGE_ERROR_NONE,
        Some (Some [CHR 0x01, CHR 0x00, CHR 0x00, CHR 0x00, CHR ''k'', CHR 0x00, CHR ''v'', CHR 0x00]),
        Some 8, [])"
    unfolding st by (simp add: metadata_eval)
  show "nns_edge_metadata_deserialize [] (snd (nns_edge_metadata_init (Some m)))
         (Some [CHR 0x01, CHR 0x00, CHR 0x00, CHR 0x00, CHR ''k'', CHR 0x00, CHR ''v'', CHR 0x00]) 8 =
       Inr (NNS_EDGE_ERROR_NONE, Some \<lparr>list = [(''k'', ''v'')], list_len = 1\<rparr>, [])"
    by (simp add: metadata_eval)
  show "nns_edge_metadata_get [] (Some \<lparr>list = [(''k'', ''v'')], list_len = 1\<rparr>) (Some ''k'') (Some None) =
       (NNS_EDGE_ERROR_NONE, Some (Some ''v''), [])"
    by (simp add: metadata_eval)
  show "nns_edge_data_serialize_meta buffer_heap 2 (Some None) (Some 0) =
       Inr (NNS_EDGE_ERROR_NONE,
            Some (Some [CHR 0x01, CHR 0x00, CHR 0x00, CHR 0x00, CHR ''k'', CHR 0x00, CHR ''v'', CHR 0x00]),
            Some 8, buffer_heap)"
    by (simp add: nns_edge_data_serialize_meta_def as_data_def buffer_heap_def metadata_eval)
  have "nns_edge_data_deserialize_meta fresh_heap 1
          (Some [CHR 0x01, CHR 0x00, CHR 0x00, CHR 0x00, CHR ''k'', CHR 0x00, CHR ''v'', CHR 0x00]) 8 =
        Inr (NNS_EDGE_ERROR_NONE,
             fresh_heap\<lparr>objs := (objs fresh_heap)(1 \<mapsto> EdgeData
               \<lparr>ed_magic = NNS_EDGE_MAGIC, ed_num = 0,
                ed_data = [\<lparr>rd_data = 0, rd_data_len = 0, rd_destroy_cb = None\<rparr>,
                           \<lparr>rd_data = 0, rd_data_len = 0, rd_destroy_cb = None\<rparr>],
                ed_metadata = \<lparr>list = [(''k'', ''v'')], list_len = 1\<rparr>\<rparr>)\<rparr>)"
    by (simp add: nns_edge_data_deserialize_meta_def as_data_def put_metadata_def fresh_heap_def
        metadata_eval)
  moreover have "nns_edge_data_get_info
      (fresh_heap\<lparr>objs := (objs fresh_heap)(1 \<mapsto> EdgeData
               \<lparr>ed_magic = NNS_EDGE_MAGIC, ed_num = 0,
                ed_data = [\<lparr>rd_data = 0, rd_data_len = 0, rd_destroy_cb = None\<rparr>,
                           \<lparr>rd_data = 0, rd_data_len = 0, rd_destroy_cb = None\<rparr>],
                ed_metadata = \<lparr>list = [(''k'', ''v'')], list_len = 1\<rparr>\<rparr>)\<rparr>)
      1 (Some ''k'') (Some None) =
      Inr (NNS_EDGE_ERROR_NONE, Some (Some ''v''),
        fresh_heap\<lparr>objs := (objs fresh_heap)(1 \<mapsto> EdgeData
               \<lparr>ed_magic = NNS_EDGE_MAGIC, ed_num = 0,
                ed_data = [\<lparr>rd_data = 0, rd_data_len = 0, rd_destroy_cb = None\<rparr>,
                           \<lparr>rd_data = 0, rd_data_len = 0, rd_destroy_cb = None\<rparr>],
                ed_metadata = \<lparr>list = [(''k'', ''v'')], list_len = 1\<rparr>\<rparr>)\<rparr>)"
    by (simp add: nns_edge_data_get_info_def as_data_def fresh_heap_def metadata_eval)
  ultimately show "\<exists>h1. nns_edge_data_deserialize_meta fresh_heap 1
               (Some [CHR 0x01, CHR 0x00, CHR 0x00, CHR 0x00, CHR ''k'', CHR 0x00, CHR ''v'', CHR 0x00]) 8 =
             Inr (NNS_EDGE_ERROR_NONE, h1)
           \<and> nns_edge_data_get_info h1 1 (Some ''k'') (Some None) =
               Inr (NNS_EDGE_ERROR_NONE, Some (Some ''v''), h1)"
    by blast
qed

lemma set_new_node:
  assumes "c_string k" and "c_string v" and "find_node (list m) k = None"
  shows "nns_edge_metadata_set [] (Some m) (Some k) (Some v) =
           (NNS_EDGE_ERROR_NONE, Some (m\<lparr>list_len := list_len m + 1, list := (k, v) # list m\<rparr>), [])"
  using assms
  by (simp add: nns_edge_metadata_set_def c_string_valid nns_edge_metadata_find_def
      nns_edge_strdup_Some c_string_c_str)

lemma buf_str_at:
  assumes "NUL \<notin> set s"
  shows "buf_str (pre @ s @ NUL # t) (length pre) = Inr s"
  using assms by (simp add: buf_str_def c_str_append_NUL)

lemma deserialize_loop_nodes:
  assumes "\<forall>kv\<in>set rest. c_string (fst kv) \<and> c_string (snd kv)"
    and "distinct (map lower_key rest)"
    and "\<forall>kv\<in>set rest. find_node (list acc) (fst kv) = None"
    and "list_len acc + of_nat (length rest) = tot"
  shows "deserialize_loop [] (Some acc) (pre @ write_nodes rest)
             (length (pre @ write_nodes rest)) tot (length pre) =
           Inr (NNS_EDGE_ERROR_NONE, Some \<lparr>list = rev rest @ list acc, list_len = tot\<rparr>, [])"
  using assms
proof (induction rest arbitrary: pre acc)
  case Nil
  then show ?case by (simp add: deserialize_loop.simps)
next
  case (Cons kv rest)
  obtain k v where kv: "kv = (k, v)" by (cases kv)
  from Cons.prems(1) kv have ck: "c_string k" and cv: "c_string v" by auto
  then have nk: "NUL \<notin> set k" and nv: "NUL \<notin> set v" by (simp_all add: c_string_def)
  let ?buf = "pre @ write_nodes (kv # rest)"
  let ?pre1 = "pre @ k @ [NUL]"
  let ?pre2 = "pre @ k @ [NUL] @ v @ [NUL]"
  let ?acc = "acc\<lparr>list_len := list_len acc + 1, list := (k, v) # list acc\<rparr>"
  have buf1: "?buf = pre @ k @ NUL # (v @ [NUL] @ write_nodes rest)"
    by (simp add: kv c_string_c_str ck cv)
  have buf2: "?buf = ?pre1 @ v @ NUL # write_nodes rest"
    by (simp add: kv c_string_c_str ck cv)
  have key0: "buf_str ?buf (length pre) = Inr k"
    unfolding buf1 by (rule buf_str_at [OF nk])
  then have key: "buf_str (take (length ?buf) ?buf) (length pre) = Inr k"
    by (simp only: take_all [OF order_refl])
  have "buf_str ?buf (length ?pre1) = Inr v"
    unfolding buf2 by (rule buf_str_at [OF nv])
  then have "buf_str ?buf (length pre + (length k + 1)) = Inr v" by simp
  then have val: "buf_str (take (length ?buf) ?buf) (length pre + (length k + 1)) = Inr v"
    by (simp only: take_all [OF order_refl])
  from Cons.prems(3) kv have "find_node (list acc) k = None" by simp
  from set_new_node [OF ck cv this]
  have s: "nns_edge_metadata_set [] (Some acc) (Some k) (Some v) = (NNS_EDGE_ERROR_NONE, Some ?acc, [])" .
  have step: "deserialize_loop [] (Some acc) ?buf (length ?buf) tot (length pre) =
      deserialize_loop [] (Some ?acc) ?buf (length ?buf) tot
        (length pre + (length k + 1) + (length v + 1))"
    using deserialize_loop_step [OF key val s, of tot] by simp
  have p1: "\<forall>kv\<in>set rest. c_string (fst kv) \<and> c_string (snd kv)" using Cons.prems(1) by simp
  have p2: "distinct (map lower_key rest)" using Cons.prems(2) by simp
  have p3: "\<forall>kv'\<in>set rest. find_node (list ?acc) (fst kv') = None"
  proof
    fix kv' assume in_rest: "kv' \<in> set rest"
    with Cons.prems(3) have old: "find_node (list acc) (fst kv') = None" by simp
    from in_rest Cons.prems(2) kv have "lower_key kv' \<noteq> lower_key (k, v)"
      by (metis distinct.simps(2) image_eqI list.simps(9) set_map)
    then have "map tolower (fst kv') \<noteq> map tolower k" by (simp add: lower_key_def)
    moreover from in_rest p1 have "c_string (fst kv')" by simp
    ultimately have "strcasecmp (fst kv') k \<noteq> 0" using ck by (simp add: strcasecmp_c_string)
    with old show "find_node (list ?acc) (fst kv') = None" by simp
  qed
  have p4: "list_len ?acc + of_nat (length rest) = tot" using Cons.prems(4) by (simp add: add.assoc)
  have b3: "?buf = ?pre2 @ write_nodes rest" by (simp add: kv c_string_c_str ck cv)
  have l: "length pre + (length k + 1) + (length v + 1) = length ?pre2" by simp
  from Cons.IH [OF p1 p2 p3 p4, of ?pre2]
  have "deserialize_loop [] (Some ?acc) ?buf (length ?buf) tot
          (length pre + (length k + 1) + (length v + 1)) =
      Inr (NNS_EDGE_ERROR_NONE, Some \<lparr>list = rev rest @ list ?acc, list_len = tot\<rparr>, [])"
    by (simp only: b3 l)
  with step show ?case by (simp add: kv)
qed

lemma find_node_distinct:
  assumes "distinct (map lower_key xs)" and "\<forall>kv\<in>set xs. c_string (fst kv)"
    and "(k, v) \<in> set xs"
  shows "\<exists>i. find_node xs k = Some i \<and> xs ! i = (k, v)"
  using assms
proof (induction xs)
  case Nil
  then show ?case by simp
next
  case (Cons x xs)
  from Cons.prems have ck: "c_string k" and cx: "c_string (fst x)" by auto
  show ?case
  proof (cases "x = (k, v)")
    case True
    then show ?thesis using ck by (simp add: strcasecmp_c_string)
  next
    case False
    with Cons.prems(3) have in_xs: "(k, v) \<in> set xs" by simp
    then have "lower_key (k, v) \<in> lower_key ` set xs" by (rule imageI)
    with Cons.prems(1) have "lower_key x \<noteq> lower_key (k, v)" by auto
    then have ne: "strcasecmp k (fst x) \<noteq> 0"
      using ck cx by (auto simp add: strcasecmp_c_string lower_key_def)
    from Cons.IH in_xs Cons.prems obtain i where "find_node xs k = Some i" "xs ! i = (k, v)"
      by auto
    with ne show ?thesis by simp
  qed
qed

lemma store_of_pairs:
  assumes "distinct (map lower_key kvs)"
    and "\<forall>kv\<in>set kvs. c_string (fst kv) \<and> c_string (snd kv)"
  shows "store_of kvs = Some \<lparr>list = rev kvs, list_len = of_nat (length kvs)\<rparr>"
  using assms
proof (induction kvs rule: rev_induct)
  case Nil
  then show ?case by (simp add: store_of_def nns_edge_metadata_init_def)
next
  case (snoc kv kvs)
  from snoc have st: "store_of kvs = Some \<lparr>list = rev kvs, list_len = of_nat (length kvs)\<rparr>"
    by simp
  from snoc.prems(2) have ck: "c_string (fst kv)" and cv: "c_string (snd kv)" by simp_all
  have "find_node (rev kvs) (fst kv) = None"
    unfolding find_node_None
  proof
    fix x assume "x \<in> set (rev kvs)"
    then have x: "x \<in> set kvs" by simp
    then have "lower_key x \<in> lower_key ` set kvs" by (rule imageI)
    with snoc.prems(1) have "lower_key x \<noteq> lower_key kv" by auto
    moreover from x snoc.prems(2) have "c_string (fst x)" by simp
    ultimately show "strcasecmp (fst kv) (fst x) \<noteq> 0"
      using ck by (auto simp add: strcasecmp_c_string lower_key_def)
  qed
  then have "find_node (list \<lparr>list = rev kvs, list_len = of_nat (length kvs)\<rparr>) (fst kv) = None"
    by simp
  from set_new_node [OF ck cv this]
  have "store_of (kvs @ [kv]) = Some \<lparr>list = kv # rev kvs, list_len = of_nat (length kvs) + 1\<rparr>"
    using st by (simp add: store_of_def)
  then show ?case by simp
qed

lemma roundtrip_store:
  assumes "distinct (map lower_key (list m))"
    and "\<forall>kv\<in>set (list m). c_string (fst kv) \<and> c_string (snd kv)"
    and "counted m" and "list_len m \<noteq> 0"
  shows "nns_edge_metadata_serialize [] (Some m) (Some x) (Some y) =
           (NNS_EDGE_ERROR_NONE, Some (Some (store_uint (list_len m) @ write_nodes (list m))),
            Some (4 + length (write_nodes (list m))), [])"
    and "nns_edge_metadata_deserialize [] (Some dest)
           (Some (store_uint (list_len m) @ write_nodes (list m)))
           (4 + length (write_nodes (list m))) =
         Inr (NNS_EDGE_ERROR_NONE, Some \<lparr>list = rev (list m), list_len = list_len m\<rparr>, [])"
proof -
  show "nns_edge_metadata_serialize [] (Some m) (Some x) (Some y) =
           (NNS_EDGE_ERROR_NONE, Some (Some (store_uint (list_len m) @ write_nodes (list m))),
            Some (4 + length (write_nodes (list m))), [])"
    using assms(4) by (simp add: nns_edge_metadata_serialize_def serialized_size_eq)
  let ?blob = "store_uint (list_len m) @ write_nodes (list m)"
  let ?acc = "dest\<lparr>list_len := 0, list := []\<rparr>"
  have t: "take (4 + length (write_nodes (list m))) ?blob = ?blob"
    by (simp add: length_store_uint)
  have u: "buf_uint ?blob = Inr (list_len m)"
    by (simp add: buf_uint_def length_store_uint load_store_uint)
  have "deserialize_loop [] (Some ?acc) (store_uint (list_len m) @ write_nodes (list m))
          (length (store_uint (list_len m) @ write_nodes (list m)))
          (list_len m) (length (store_uint (list_len m))) =
        Inr (NNS_EDGE_ERROR_NONE, Some \<lparr>list = rev (list m) @ list ?acc, list_len = list_len m\<rparr>, [])"
    by (rule deserialize_loop_nodes) (use assms in \<open>simp_all add: counted_def\<close>)
  then show "nns_edge_metadata_deserialize [] (Some dest) (Some ?blob)
           (4 + length (write_nodes (list m))) =
         Inr (NNS_EDGE_ERROR_NONE, Some \<lparr>list = rev (list m), list_len = list_len m\<rparr>, [])"
    unfolding nns_edge_metadata_deserialize_def t
    by (simp add: u nns_edge_metadata_free_def length_store_uint)
qed

lemma get_in_store:
  assumes "distinct (map lower_key xs)"
    and "\<forall>kv\<in>set xs. c_string (fst kv) \<and> c_string (snd kv)"
    and "(k, v) \<in> set xs"
  shows "nns_edge_metadata_get [] (Some \<lparr>list = xs, list_len = n\<rparr>) (Some k) (Some old) =
           (NNS_EDGE_ERROR_NONE, Some (Some v), [])"
proof -
  from assms(2) have "\<forall>kv\<in>set xs. c_string (fst kv)" by simp
  from find_node_distinct [OF assms(1) this assms(3)]
  obtain i where i: "find_node xs k = Some i" "xs ! i = (k, v)" by blast
  from assms(2,3) have "c_string k" "c_string v" by auto
  with i show ?thesis
    by (simp add: nns_edge_metadata_get_def nns_edge_metadata_find_def c_string_valid
        nns_edge_strdup_Some c_string_c_str)
qed

text \<open>
  C2. For a list of pairs whose keys differ even with letter case folded, all keys and
  values being non-empty C strings, the store built from the pairs serializes to a blob,
  deserializing the blob into any store succeeds, and a get of each original key on the
  result returns the original value. No allocation is refused, and the pairs are fewer
  than \<open>2 ^ 32\<close>, so that the counter of the store is their number.
\<close>

theorem serialize_deserialize_roundtrip:
  assumes "distinct (map lower_key kvs)"
    and "\<forall>kv\<in>set kvs. c_string (fst kv) \<and> c_string (snd kv)"
    and "length kvs < 2 ^ 32"
    and "(k, v) \<in> set kvs"
  shows "\<exists>blob n meta1.
           nns_edge_metadata_serialize [] (store_of kvs) (Some None) (Some 0) =
             (NNS_EDGE_ERROR_NONE, Some (Some blob), Some n, [])
         \<and> nns_edge_metadata_deserialize [] (Some dest) (Some blob) n =
             Inr (NNS_EDGE_ERROR_NONE, meta1, [])
         \<and> nns_edge_metadata_get [] meta1 (Some k) (Some None) =
             (NNS_EDGE_ERROR_NONE, Some (Some v), [])"
proof -
  let ?m = "\<lparr>list = rev kvs, list_len = of_nat (length kvs) :: 32 word\<rparr>"
  have st: "store_of kvs = Some ?m" using assms(1,2) by (rule store_of_pairs)
  have d: "distinct (map lower_key (list ?m))" using assms(1) by (simp add: rev_map [symmetric])
  have c: "\<forall>kv\<in>set (list ?m). c_string (fst kv) \<and> c_string (snd kv)" using assms(2) by simp
  have cn: "counted ?m" by (simp add: counted_def)
  from assms(4) have "0 < length kvs" by auto
  with assms(3) have "unat (of_nat (length kvs) :: 32 word) \<noteq> 0"
    by (simp add: unat_of_nat)
  then have nz: "list_len ?m \<noteq> 0" by auto
  note rt = roundtrip_store [OF d c cn nz]
  have g: "nns_edge_metadata_get [] (Some \<lparr>list = rev (list ?m), list_len = list_len ?m\<rparr>)
             (Some k) (Some None) = (NNS_EDGE_ERROR_NONE, Some (Some v), [])"
    using assms(1,2,4) by (simp add: get_in_store)
  from rt(1) [of None 0] rt(2) [of dest] g st show ?thesis by metis
qed

theorem serialize_deserialize_roundtrip_witness:
  "distinct (map lower_key [(''Key'', ''one''), (''mode'', ''fast'')])
   \<and> c_string ''Key'' \<and> c_string ''one'' \<and> c_string ''mode'' \<and> c_string ''fast''
   \<and> length [(''Key'', ''one''), (''mode'', ''fast'')] < 2 ^ 32
   \<and> (''mode'', ''fast'') \<in> set [(''Key'', ''one''), (''mode'', ''fast'')]
   \<and> (\<exists>blob n meta1.
           nns_edge_metadata_serialize [] (store_of [(''Key'', ''one''), (''mode'', ''fast'')])
             (Some None) (Some 0) = (NNS_EDGE_ERROR_NONE, Some (Some blob), Some n, [])
         \<and> nns_edge_metadata_deserialize [] (Some \<lparr>list = [], list_len = 0\<rparr>) (Some blob) n =
             Inr (NNS_EDGE_ERROR_NONE, meta1, [])
         \<and> nns_edge_metadata_get [] meta1 (Some ''mode'') (Some None) =
             (NNS_EDGE_ERROR_NONE, Some (Some ''fast''), []))"
proof -
  have 1: "distinct (map lower_key [(''Key'', ''one''), (''mode'', ''fast'')])"
    by (simp add: lower_key_def tolower_def char_of_eq_iff char_eq_char_of)
  have 2: "\<forall>kv\<in>set [(''Key'', ''one''), (''mode'', ''fast'')]. c_string (fst kv) \<and> c_string (snd kv)"
    by (simp add: c_string_def NUL_def)
  have 3: "length [(''Key'', ''one''), (''mode'', ''fast'')] < 2 ^ 32" by simp
  have 4: "(''mode'', ''fast'') \<in> set [(''Key'', ''one''), (''mode'', ''fast'')]" by simp
  from 2 have 5: "c_string ''Key'' \<and> c_string ''one'' \<and> c_string ''mode'' \<and> c_string ''fast''"
    by simp
  from serialize_deserialize_roundtrip [OF 1 2 3 4, of "\<lparr>list = [], list_len = 0\<rparr>"] 1 3 4 5
  show ?thesis by blast
qed

text \<open>
  C1. A blob of eight bytes that announces two pairs and holds one: after the pair the
  offset is 8, the length of the buffer, but the store has one node where two are
  announced, so the loop goes on and reads the next key at offset 8. A buffer of one
  byte is read past its end by the load of the count.
\<close>

theorem deserialize_reads_past_end:
  "nns_edge_metadata_deserialize [] (Some m)
     (Some [CHR 0x02, CHR 0x00, CHR 0x00, CHR 0x00, CHR ''k'', CHR 0x00, CHR ''v'', CHR 0x00]) 8 =
     Inl (ReadPastEnd 8)
   \<and> nns_edge_metadata_deserialize al (Some m) (Some [CHR 0x01]) 1 = Inl (ReadPastEnd 1)"
  by (simp add: metadata_eval)

subsection \<open>Failure of the composite operations\<close>

text \<open>
  The two composite operations on metadata. A failed
  \<^verbatim>\<open>nns_edge_metadata_copy\<close> returns the destination as it was, and a failed
  \<^verbatim>\<open>nns_edge_metadata_deserialize\<close> returns the store as it was, when it refuses the
  arguments, or empty.
\<close>

lemma metadata_copy_failure:
  "nns_edge_metadata_copy al dest src = (ret, dest1, al1) \<Longrightarrow> ret \<noteq> NNS_EDGE_ERROR_NONE
     \<Longrightarrow> dest1 = dest"
  by (auto simp add: nns_edge_metadata_copy_def split: option.splits prod.splits if_splits)

lemma set_returns_store:
  "nns_edge_metadata_set al (Some m) key val = (ret, meta1, al1) \<Longrightarrow> \<exists>m1. meta1 = Some m1"
  by (auto simp add: nns_edge_metadata_set_def split: option.splits prod.splits if_splits)

lemma deserialize_loop_failure:
  "deserialize_loop al (Some m) data data_len tot cur = Inr (ret, meta1, al1)
     \<Longrightarrow> ret \<noteq> NNS_EDGE_ERROR_NONE
     \<Longrightarrow> \<exists>m1. meta1 = Some m1 \<and> list m1 = [] \<and> list_len m1 = 0"
proof (induction "data_len - cur" arbitrary: al m cur rule: less_induct)
  case less
  show ?case
  proof (cases "cur < data_len \<or> list_len m < tot")
    case False
    with less.prems show ?thesis by (auto simp add: deserialize_loop.simps)
  next
    case True
    from True less.prems(1) obtain key where key: "buf_str (take data_len data) cur = Inr key"
      by (cases "buf_str (take data_len data) cur") (auto simp add: deserialize_loop.simps)
    from True less.prems(1) key obtain val
      where val: "buf_str (take data_len data) (cur + (length key + 1)) = Inr val"
      by (cases "buf_str (take data_len data) (cur + (length key + 1))")
        (auto simp add: deserialize_loop.simps)
    obtain r tm a where s: "nns_edge_metadata_set al (Some m) (Some key) (Some val) = (r, tm, a)"
      by (cases "nns_edge_metadata_set al (Some m) (Some key) (Some val)") auto
    from set_returns_store [OF s] obtain m1 where m1: "tm = Some m1" by blast
    note step = deserialize_loop_step [OF key val s, of tot]
    show ?thesis
    proof (cases "r = NNS_EDGE_ERROR_NONE")
      case False
      with less.prems(1) step m1 show ?thesis
        by (auto simp add: nns_edge_metadata_free_def)
    next
      case r: True
      from buf_str_bound [OF key] have "cur + length key < data_len"
        by simp
      then have d: "data_len - (cur + (length key + 1) + (length val + 1)) < data_len - cur"
        by linarith
      from less.prems(1) step r m1
      have "deserialize_loop a (Some m1) data data_len tot (cur + (length key + 1) + (length val + 1))
              = Inr (ret, meta1, al1)"
        by simp
      from less.hyps [OF d this less.prems(2)] show ?thesis .
    qed
  qed
qed

lemma metadata_deserialize_failure:
  assumes "nns_edge_metadata_deserialize al (Some m) data data_len = Inr (ret, meta1, al1)"
    and "ret \<noteq> NNS_EDGE_ERROR_NONE"
  shows "meta1 = Some m \<or> (\<exists>m1. meta1 = Some m1 \<and> list m1 = [] \<and> list_len m1 = 0)"
proof (cases "data = None \<or> data_len \<le> 0")
  case True
  with assms show ?thesis
    by (auto simp add: nns_edge_metadata_deserialize_def split: option.splits)
next
  case False
  then obtain bytes where b: "data = Some bytes" "0 < data_len" by auto
  from assms(1) b obtain tot where
    "deserialize_loop al (Some (m\<lparr>list_len := 0, list := []\<rparr>)) bytes data_len tot 4
       = Inr (ret, meta1, al1)"
    by (auto simp add: nns_edge_metadata_deserialize_def nns_edge_metadata_free_def
        split: sum.splits)
  from deserialize_loop_failure [OF this assms(2)] show ?thesis by simp
qed

text \<open>
  C3. The copy of the edge data object in \<open>buffer_heap\<close>, when the object and the
  duplicate of its buffer are granted and the node for the metadata is refused:
  \<^verbatim>\<open>nns_edge_data_copy\<close> returns OutOfMemory, and the new object is still in the heap
  at the address left in \<^verbatim>\<open>*new_data_h\<close>, with its entry and the duplicate at address 4.
\<close>

theorem data_copy_failure_keeps_new_object:
  "(case nns_edge_data_copy 2 (buffer_heap\<lparr>oom := [False, False, True]\<rparr>) 2 (Some 0) of
      Inl f \<Rightarrow> None
    | Inr (ret, new_data_h, h1) \<Rightarrow> Some (ret, new_data_h, objs h1 3, objs h1 4)) =
   Some (NNS_EDGE_ERROR_OUT_OF_MEMORY, Some 3,
         Some (EdgeData
            \<lparr>ed_magic = NNS_EDGE_MAGIC, ed_num = 1,
             ed_data = [\<lparr>rd_data = 4, rd_data_len = 2, rd_destroy_cb = Some NNS_EDGE_FREE\<rparr>,
                        \<lparr>rd_data = 0, rd_data_len = 0, rd_destroy_cb = None\<rparr>],
             ed_metadata = \<lparr>list = [], list_len = 0\<rparr>\<rparr>),
         Some (Bytes ''AB''))"
  by (simp add: heap_eval metadata_eval)

subsection \<open>Copies of edge data\<close>

lemma memdup_granted:
  assumes "oom g = []" and "ptr \<noteq> 0" and "0 < len" and "objs g ptr = Some (Bytes bs)"
    and "len \<le> length bs" and "ptr \<le> brk g"
  shows "nns_edge_memdup g ptr len =
           Inr (Suc (brk g),
                g\<lparr>objs := (objs g)(Suc (brk g) \<mapsto> Bytes (take len bs)),
                  brk := Suc (brk g), oom := []\<rparr>)"
  using assms by (simp add: nns_edge_memdup_def malloc_def)

lemma copy_entries_granted:
  assumes "oom g = []" and "brk g = Suc B + i" and "copied = Suc B"
    and "objs g copied = Some (EdgeData cp)" and "length (ed_data cp) = limit"
    and "ed_num ed \<le> limit" and "ed_num ed \<le> length (ed_data ed)" and "i \<le> ed_num ed"
    and "\<forall>j<ed_num ed. rd_data (ed_data ed ! j) \<noteq> 0 \<and> 0 < rd_data_len (ed_data ed ! j)
            \<and> rd_data (ed_data ed ! j) \<le> B
            \<and> (\<exists>bs. objs g (rd_data (ed_data ed ! j)) = Some (Bytes bs)
                   \<and> rd_data_len (ed_data ed ! j) \<le> length bs)"
  shows "\<exists>g' cp'. copy_entries g ed copied i = Inr g' \<and> oom g' = []
           \<and> objs g' copied = Some (EdgeData cp')
           \<and> ed_magic cp' = ed_magic cp \<and> ed_num cp' = ed_num cp
           \<and> ed_metadata cp' = ed_metadata cp \<and> length (ed_data cp') = limit
           \<and> (\<forall>q. q \<le> brk g \<and> q \<noteq> copied \<longrightarrow> objs g' q = objs g q)
           \<and> (\<forall>j<i. ed_data cp' ! j = ed_data cp ! j)
           \<and> (\<forall>j. i \<le> j \<and> j < ed_num ed \<longrightarrow>
                  ed_data cp' ! j = \<lparr>rd_data = Suc (Suc B) + j,
                                      rd_data_len = rd_data_len (ed_data ed ! j),
                                      rd_destroy_cb = Some NNS_EDGE_FREE\<rparr>
                  \<and> (\<exists>bs. objs g (rd_data (ed_data ed ! j)) = Some (Bytes bs)
                         \<and> objs g' (Suc (Suc B) + j) =
                             Some (Bytes (take (rd_data_len (ed_data ed ! j)) bs))))"
  using assms
proof (induction "ed_num ed - i" arbitrary: g cp i)
  case 0
  then have "\<not> i < ed_num ed" by simp
  then have "copy_entries g ed copied i = Inr g" by (simp add: copy_entries.simps)
  with 0 show ?case by auto
next
  case (Suc n)
  then have i: "i < ed_num ed" by simp
  let ?e = "ed_data ed ! i"
  let ?mem = "Suc (brk g)"
  from Suc.prems(9) i obtain bs where
    e: "rd_data ?e \<noteq> 0" "0 < rd_data_len ?e" "rd_data ?e \<le> B"
       "objs g (rd_data ?e) = Some (Bytes bs)" "rd_data_len ?e \<le> length bs"
    by blast
  let ?g1 = "g\<lparr>objs := (objs g)(?mem \<mapsto> Bytes (take (rd_data_len ?e) bs)),
               brk := ?mem, oom := []\<rparr>"
  have "rd_data ?e \<le> brk g" using e(3) Suc.prems(2) by simp
  from memdup_granted [OF Suc.prems(1) e(1,2,4,5) this]
  have md: "nns_edge_memdup g (rd_data ?e) (rd_data_len ?e) = Inr (?mem, ?g1)" .
  have cm: "copied \<noteq> ?mem" "copied \<noteq> 0" using Suc.prems(2,3) by simp_all
  then have ad: "as_data ?g1 copied = Inr (Some cp)"
    using Suc.prems(4) by (simp add: as_data_def)
  let ?new = "\<lparr>rd_data = ?mem, rd_data_len = rd_data_len ?e, rd_destroy_cb = Some NNS_EDGE_FREE\<rparr>"
  let ?cp2 = "cp\<lparr>ed_data := (ed_data cp)[i := ?new]\<rparr>"
  let ?g2 = "?g1\<lparr>objs := (objs ?g1)(copied \<mapsto> EdgeData ?cp2)\<rparr>"
  have il: "i < length (ed_data ed)" "i < length (ed_data cp)"
    using i Suc.prems(5,6,7) by simp_all
  have step: "copy_entries g ed copied i = copy_entries ?g2 ed copied (Suc i)"
    using i il md ad by (simp add: copy_entries.simps [of g])
  have p1: "oom ?g2 = []" by simp
  have p2: "brk ?g2 = Suc B + Suc i" using Suc.prems(2) by simp
  have p4: "objs ?g2 copied = Some (EdgeData ?cp2)" by simp
  have p5: "length (ed_data ?cp2) = limit" using Suc.prems(5) by simp
  have p8: "Suc i \<le> ed_num ed" using i by simp
  have p9: "\<forall>j<ed_num ed. rd_data (ed_data ed ! j) \<noteq> 0 \<and> 0 < rd_data_len (ed_data ed ! j)
            \<and> rd_data (ed_data ed ! j) \<le> B
            \<and> (\<exists>bs. objs ?g2 (rd_data (ed_data ed ! j)) = Some (Bytes bs)
                   \<and> rd_data_len (ed_data ed ! j) \<le> length bs)"
  proof (intro allI impI)
    fix j assume "j < ed_num ed"
    with Suc.prems(9) obtain bs' where
      j: "rd_data (ed_data ed ! j) \<noteq> 0" "0 < rd_data_len (ed_data ed ! j)"
         "rd_data (ed_data ed ! j) \<le> B"
         "objs g (rd_data (ed_data ed ! j)) = Some (Bytes bs')"
         "rd_data_len (ed_data ed ! j) \<le> length bs'"
      by blast
    from j(3) Suc.prems(2,3) have "rd_data (ed_data ed ! j) \<noteq> copied"
      "rd_data (ed_data ed ! j) \<noteq> ?mem" by simp_all
    with j show "rd_data (ed_data ed ! j) \<noteq> 0 \<and> 0 < rd_data_len (ed_data ed ! j)
            \<and> rd_data (ed_data ed ! j) \<le> B
            \<and> (\<exists>bs. objs ?g2 (rd_data (ed_data ed ! j)) = Some (Bytes bs)
                   \<and> rd_data_len (ed_data ed ! j) \<le> length bs)"
      by simp
  qed
  have n: "n = ed_num ed - Suc i" using Suc.hyps(2) by simp
  from Suc.hyps(1) [OF n p1 p2 Suc.prems(3) p4 p5 Suc.prems(6,7) p8 p9]
  obtain g' cp' where
    r: "copy_entries ?g2 ed copied (Suc i) = Inr g'" "oom g' = []"
       "objs g' copied = Some (EdgeData cp')"
       "ed_magic cp' = ed_magic ?cp2" "ed_num cp' = ed_num ?cp2"
       "ed_metadata cp' = ed_metadata ?cp2" "length (ed_data cp') = limit"
    and frame: "\<forall>q. q \<le> brk ?g2 \<and> q \<noteq> copied \<longrightarrow> objs g' q = objs ?g2 q"
    and below: "\<forall>j<Suc i. ed_data cp' ! j = ed_data ?cp2 ! j"
    and above: "\<forall>j. Suc i \<le> j \<and> j < ed_num ed \<longrightarrow>
                  ed_data cp' ! j = \<lparr>rd_data = Suc (Suc B) + j,
                                      rd_data_len = rd_data_len (ed_data ed ! j),
                                      rd_destroy_cb = Some NNS_EDGE_FREE\<rparr>
                  \<and> (\<exists>bs. objs ?g2 (rd_data (ed_data ed ! j)) = Some (Bytes bs)
                         \<and> objs g' (Suc (Suc B) + j) =
                             Some (Bytes (take (rd_data_len (ed_data ed ! j)) bs)))"
    by blast
  have mem: "?mem = Suc (Suc B) + i" using Suc.prems(2) by simp
  have f1: "\<forall>q. q \<le> brk g \<and> q \<noteq> copied \<longrightarrow> objs g' q = objs g q"
  proof (intro allI impI)
    fix q assume q: "q \<le> brk g \<and> q \<noteq> copied"
    then have "q \<le> brk ?g2 \<and> q \<noteq> copied" by simp
    with frame have "objs g' q = objs ?g2 q" by blast
    also from q have "objs ?g2 q = objs g q" by simp
    finally show "objs g' q = objs g q" .
  qed
  have f2: "\<forall>j<i. ed_data cp' ! j = ed_data cp ! j"
  proof (intro allI impI)
    fix j assume "j < i"
    with below have "ed_data cp' ! j = ed_data ?cp2 ! j" by simp
    with \<open>j < i\<close> show "ed_data cp' ! j = ed_data cp ! j" by simp
  qed
  have f3: "\<forall>j. i \<le> j \<and> j < ed_num ed \<longrightarrow>
                  ed_data cp' ! j = \<lparr>rd_data = Suc (Suc B) + j,
                                      rd_data_len = rd_data_len (ed_data ed ! j),
                                      rd_destroy_cb = Some NNS_EDGE_FREE\<rparr>
                  \<and> (\<exists>bs. objs g (rd_data (ed_data ed ! j)) = Some (Bytes bs)
                         \<and> objs g' (Suc (Suc B) + j) =
                             Some (Bytes (take (rd_data_len (ed_data ed ! j)) bs)))"
  proof (intro allI impI)
    fix j assume j: "i \<le> j \<and> j < ed_num ed"
    show "ed_data cp' ! j = \<lparr>rd_data = Suc (Suc B) + j,
                                      rd_data_len = rd_data_len (ed_data ed ! j),
                                      rd_destroy_cb = Some NNS_EDGE_FREE\<rparr>
                  \<and> (\<exists>bs. objs g (rd_data (ed_data ed ! j)) = Some (Bytes bs)
                         \<and> objs g' (Suc (Suc B) + j) =
                             Some (Bytes (take (rd_data_len (ed_data ed ! j)) bs)))"
    proof (cases "j = i")
      case True
      from below have "ed_data cp' ! i = ed_data ?cp2 ! i" by simp
      then have a: "ed_data cp' ! i = ?new" using il(2) by simp
      have "?mem \<le> brk ?g2 \<and> ?mem \<noteq> copied" using cm by simp
      with frame have "objs g' ?mem = objs ?g2 ?mem" by blast
      then have b: "objs g' ?mem = Some (Bytes (take (rd_data_len ?e) bs))"
        using cm by simp
      from a b e(4) True mem show ?thesis by simp
    next
      case False
      with j have j': "Suc i \<le> j \<and> j < ed_num ed" by simp
      with above obtain bs' where
        a: "ed_data cp' ! j = \<lparr>rd_data = Suc (Suc B) + j,
                                      rd_data_len = rd_data_len (ed_data ed ! j),
                                      rd_destroy_cb = Some NNS_EDGE_FREE\<rparr>"
          "objs ?g2 (rd_data (ed_data ed ! j)) = Some (Bytes bs')"
          "objs g' (Suc (Suc B) + j) = Some (Bytes (take (rd_data_len (ed_data ed ! j)) bs'))"
        by blast
      from j Suc.prems(9) have "rd_data (ed_data ed ! j) \<le> B" by blast
      with Suc.prems(2,3) have "rd_data (ed_data ed ! j) \<noteq> copied"
        "rd_data (ed_data ed ! j) \<noteq> ?mem" by simp_all
      with a(2) have "objs g (rd_data (ed_data ed ! j)) = Some (Bytes bs')" by simp
      with a show ?thesis by simp
    qed
  qed
  from r have r': "copy_entries g ed copied i = Inr g'" "oom g' = []"
       "objs g' copied = Some (EdgeData cp')"
       "ed_magic cp' = ed_magic cp" "ed_num cp' = ed_num cp"
       "ed_metadata cp' = ed_metadata cp" "length (ed_data cp') = limit"
    using step by simp_all
  with f1 f2 f3 show ?case by blast
qed

text \<open>
  When no allocation is refused, the copy of a well-formed edge data object has, for
  every entry of the source, an entry of the same length with \<^verbatim>\<open>nns_edge_free\<close> as
  destructor, at an address where nothing was allocated before the copy and where the
  bytes of the source entry now are.
\<close>

lemma data_copy_granted:
  assumes "oom h = []" and "objs h p = Some (EdgeData ed)" and "p \<noteq> 0"
    and "ed_magic ed = NNS_EDGE_MAGIC" and "ed_num ed \<le> limit"
    and "ed_num ed \<le> length (ed_data ed)"
    and "\<forall>q. objs h q \<noteq> None \<longrightarrow> q \<le> brk h"
    and "\<forall>j<ed_num ed. rd_data (ed_data ed ! j) \<noteq> 0 \<and> 0 < rd_data_len (ed_data ed ! j)
            \<and> (\<exists>bs. objs h (rd_data (ed_data ed ! j)) = Some (Bytes bs)
                   \<and> rd_data_len (ed_data ed ! j) \<le> length bs)"
  shows "\<exists>ret new h' cp. nns_edge_data_copy limit h p (Some old) = Inr (ret, Some new, h')
           \<and> objs h new = None \<and> objs h' new = Some (EdgeData cp)
           \<and> ed_magic cp = NNS_EDGE_MAGIC \<and> ed_num cp = ed_num ed
           \<and> (\<forall>j<ed_num ed.
                  rd_data_len (ed_data cp ! j) = rd_data_len (ed_data ed ! j)
                  \<and> rd_destroy_cb (ed_data cp ! j) = Some NNS_EDGE_FREE
                  \<and> rd_data (ed_data cp ! j) \<noteq> 0
                  \<and> objs h (rd_data (ed_data cp ! j)) = None
                  \<and> (\<exists>bs. objs h (rd_data (ed_data ed ! j)) = Some (Bytes bs)
                         \<and> objs h' (rd_data (ed_data cp ! j)) =
                             Some (Bytes (take (rd_data_len (ed_data ed ! j)) bs))))"
proof -
  let ?B = "brk h"
  let ?copied = "Suc ?B"
  let ?created = "\<lparr>ed_magic = NNS_EDGE_MAGIC, ed_num = 0,
               ed_data = replicate limit \<lparr>rd_data = 0, rd_data_len = 0, rd_destroy_cb = None\<rparr>,
               ed_metadata = \<lparr>list = [], list_len = 0\<rparr>\<rparr>"
  let ?h1 = "h\<lparr>objs := (objs h)(?copied \<mapsto> EdgeData ?created), brk := ?copied, oom := []\<rparr>"
  have cr: "nns_edge_data_create limit h (Some old) = (NNS_EDGE_ERROR_NONE, Some ?copied, ?h1)"
    using assms(1)
    by (simp add: nns_edge_data_create_def malloc_def put_metadata_def nns_edge_metadata_init_def)
  let ?counted = "?created\<lparr>ed_num := ed_num ed\<rparr>"
  let ?h2 = "?h1\<lparr>objs := (objs ?h1)(?copied \<mapsto> EdgeData ?counted)\<rparr>"
  have fresh: "objs h q = None" if "?B < q" for q
    using assms(7) that by (cases "objs h q") (auto simp add: not_le [symmetric])
  have src: "\<forall>j<ed_num ed. rd_data (ed_data ed ! j) \<noteq> 0 \<and> 0 < rd_data_len (ed_data ed ! j)
            \<and> rd_data (ed_data ed ! j) \<le> ?B
            \<and> (\<exists>bs. objs ?h2 (rd_data (ed_data ed ! j)) = Some (Bytes bs)
                   \<and> rd_data_len (ed_data ed ! j) \<le> length bs)"
  proof (intro allI impI)
    fix j assume "j < ed_num ed"
    with assms(8) obtain bs where
      j: "rd_data (ed_data ed ! j) \<noteq> 0" "0 < rd_data_len (ed_data ed ! j)"
         "objs h (rd_data (ed_data ed ! j)) = Some (Bytes bs)"
         "rd_data_len (ed_data ed ! j) \<le> length bs"
      by blast
    from j(3) assms(7) have b: "rd_data (ed_data ed ! j) \<le> ?B" by auto
    then have "rd_data (ed_data ed ! j) \<noteq> ?copied" by simp
    with j b show "rd_data (ed_data ed ! j) \<noteq> 0 \<and> 0 < rd_data_len (ed_data ed ! j)
            \<and> rd_data (ed_data ed ! j) \<le> ?B
            \<and> (\<exists>bs. objs ?h2 (rd_data (ed_data ed ! j)) = Some (Bytes bs)
                   \<and> rd_data_len (ed_data ed ! j) \<le> length bs)"
      by simp
  qed
  have "\<exists>g' cp'. copy_entries ?h2 ed ?copied 0 = Inr g' \<and> oom g' = []
           \<and> objs g' ?copied = Some (EdgeData cp')
           \<and> ed_magic cp' = ed_magic ?counted \<and> ed_num cp' = ed_num ?counted
           \<and> ed_metadata cp' = ed_metadata ?counted \<and> length (ed_data cp') = limit
           \<and> (\<forall>q. q \<le> brk ?h2 \<and> q \<noteq> ?copied \<longrightarrow> objs g' q = objs ?h2 q)
           \<and> (\<forall>j<0. ed_data cp' ! j = ed_data ?counted ! j)
           \<and> (\<forall>j. 0 \<le> j \<and> j < ed_num ed \<longrightarrow>
                  ed_data cp' ! j = \<lparr>rd_data = Suc (Suc ?B) + j,
                                      rd_data_len = rd_data_len (ed_data ed ! j),
                                      rd_destroy_cb = Some NNS_EDGE_FREE\<rparr>
                  \<and> (\<exists>bs. objs ?h2 (rd_data (ed_data ed ! j)) = Some (Bytes bs)
                         \<and> objs g' (Suc (Suc ?B) + j) =
                             Some (Bytes (take (rd_data_len (ed_data ed ! j)) bs))))"
    by (rule copy_entries_granted [where limit = limit])
      (use assms(5,6) src in simp_all)
  then obtain h3 cp3 where
    l: "copy_entries ?h2 ed ?copied 0 = Inr h3" "oom h3 = []"
       "objs h3 ?copied = Some (EdgeData cp3)" "ed_magic cp3 = NNS_EDGE_MAGIC"
       "ed_num cp3 = ed_num ed"
    and ent: "\<forall>j. j < ed_num ed \<longrightarrow>
                  ed_data cp3 ! j = \<lparr>rd_data = Suc (Suc ?B) + j,
                                      rd_data_len = rd_data_len (ed_data ed ! j),
                                      rd_destroy_cb = Some NNS_EDGE_FREE\<rparr>
                  \<and> (\<exists>bs. objs ?h2 (rd_data (ed_data ed ! j)) = Some (Bytes bs)
                         \<and> objs h3 (Suc (Suc ?B) + j) =
                             Some (Bytes (take (rd_data_len (ed_data ed ! j)) bs)))"
    by auto
  obtain ret2 meta2 al2 where
    mc: "nns_edge_metadata_copy (oom h3) (Some (ed_metadata cp3)) (Some (ed_metadata ed)) =
           (ret2, meta2, al2)"
    by (cases "nns_edge_metadata_copy (oom h3) (Some (ed_metadata cp3)) (Some (ed_metadata ed))")
      auto
  let ?cp4 = "put_metadata cp3 meta2"
  let ?h4 = "h3\<lparr>objs := (objs h3)(?copied \<mapsto> EdgeData ?cp4), oom := al2\<rparr>"
  have ad0: "as_data h p = Inr (Some ed)" using assms(2,3) by (simp add: as_data_def)
  have ad1: "as_data ?h1 ?copied = Inr (Some ?created)" by (simp add: as_data_def)
  have ad3: "as_data h3 ?copied = Inr (Some cp3)" using l(3) by (simp add: as_data_def)
  have res: "nns_edge_data_copy limit h p (Some old) = Inr (ret2, Some ?copied, ?h4)"
    unfolding nns_edge_data_copy_def using l(1)
    by (simp add: ad0 assms(4) cr ad1 ad3 mc del: fun_upd_apply)
  have keep: "ed_magic ?cp4 = NNS_EDGE_MAGIC" "ed_num ?cp4 = ed_num ed"
    "ed_data ?cp4 = ed_data cp3"
    using l(4,5) by (simp_all add: put_metadata_def split: option.splits)
  have entries: "\<forall>j<ed_num ed.
                  rd_data_len (ed_data ?cp4 ! j) = rd_data_len (ed_data ed ! j)
                  \<and> rd_destroy_cb (ed_data ?cp4 ! j) = Some NNS_EDGE_FREE
                  \<and> rd_data (ed_data ?cp4 ! j) \<noteq> 0
                  \<and> objs h (rd_data (ed_data ?cp4 ! j)) = None
                  \<and> (\<exists>bs. objs h (rd_data (ed_data ed ! j)) = Some (Bytes bs)
                         \<and> objs ?h4 (rd_data (ed_data ?cp4 ! j)) =
                             Some (Bytes (take (rd_data_len (ed_data ed ! j)) bs)))"
  proof (intro allI impI)
    fix j assume j: "j < ed_num ed"
    with ent obtain bs where
      e: "ed_data cp3 ! j = \<lparr>rd_data = Suc (Suc ?B) + j,
                                      rd_data_len = rd_data_len (ed_data ed ! j),
                                      rd_destroy_cb = Some NNS_EDGE_FREE\<rparr>"
         "objs ?h2 (rd_data (ed_data ed ! j)) = Some (Bytes bs)"
         "objs h3 (Suc (Suc ?B) + j) = Some (Bytes (take (rd_data_len (ed_data ed ! j)) bs))"
      by blast
    from src j have "rd_data (ed_data ed ! j) \<le> ?B" by blast
    then have "rd_data (ed_data ed ! j) \<noteq> ?copied" by simp
    with e(2) have s: "objs h (rd_data (ed_data ed ! j)) = Some (Bytes bs)" by simp
    have f: "objs h (Suc (Suc ?B) + j) = None" by (rule fresh) simp
    from e(1,3) s f keep(3)
    show "rd_data_len (ed_data ?cp4 ! j) = rd_data_len (ed_data ed ! j)
                  \<and> rd_destroy_cb (ed_data ?cp4 ! j) = Some NNS_EDGE_FREE
                  \<and> rd_data (ed_data ?cp4 ! j) \<noteq> 0
                  \<and> objs h (rd_data (ed_data ?cp4 ! j)) = None
                  \<and> (\<exists>bs. objs h (rd_data (ed_data ed ! j)) = Some (Bytes bs)
                         \<and> objs ?h4 (rd_data (ed_data ?cp4 ! j)) =
                             Some (Bytes (take (rd_data_len (ed_data ed ! j)) bs)))"
      by simp
  qed
  have "objs h ?copied = None" by (rule fresh) simp
  moreover have "objs ?h4 ?copied = Some (EdgeData ?cp4)" by simp
  ultimately show ?thesis using res keep(1,2) entries by blast
qed

text \<open>
  C7. The copy of the edge data object in \<open>buffer_heap\<close>, when the object is granted
  and the duplicate of its buffer is refused: \<^verbatim>\<open>nns_edge_data_copy\<close> returns success,
  and the entry of the new object has the length 2, \<^verbatim>\<open>nns_edge_free\<close> as destructor and
  NULL as its address.
\<close>

theorem data_copy_success_with_null_entry:
  "(case nns_edge_data_copy 2 (buffer_heap\<lparr>oom := [False, True]\<rparr>) 2 (Some 0) of
      Inl f \<Rightarrow> None
    | Inr (ret, new_data_h, h1) \<Rightarrow> Some (ret, new_data_h, objs h1 3)) =
   Some (NNS_EDGE_ERROR_NONE, Some 3,
         Some (EdgeData
            \<lparr>ed_magic = NNS_EDGE_MAGIC, ed_num = 1,
             ed_data = [\<lparr>rd_data = 0, rd_data_len = 2, rd_destroy_cb = Some NNS_EDGE_FREE\<rparr>,
                        \<lparr>rd_data = 0, rd_data_len = 0, rd_destroy_cb = None\<rparr>],
             ed_metadata = \<lparr>list = [(''k'', ''v'')], list_len = 1\<rparr>\<rparr>))"
  by (simp add: heap_eval metadata_eval)

subsection \<open>Capacity of edge data\<close>

lemma add_each_ok:
  assumes "objs h p = Some (EdgeData ed)" and "p \<noteq> 0" and "ed_magic ed = NNS_EDGE_MAGIC"
    and "length (ed_data ed) = limit" and "ed_num ed + length bufs \<le> limit"
    and "\<forall>b\<in>set bufs. fst b \<noteq> 0 \<and> 0 < fst (snd b)"
  shows "\<exists>h1 ed1. add_each limit h p bufs = Inr (replicate (length bufs) NNS_EDGE_ERROR_NONE, h1)
           \<and> objs h1 p = Some (EdgeData ed1) \<and> ed_magic ed1 = NNS_EDGE_MAGIC
           \<and> length (ed_data ed1) = limit \<and> ed_num ed1 = ed_num ed + length bufs"
  using assms
proof (induction bufs arbitrary: h ed)
  case Nil
  then show ?case by simp
next
  case (Cons b bufs)
  let ?ed = "ed\<lparr>ed_data := (ed_data ed)
                 [ed_num ed := \<lparr>rd_data = fst b, rd_data_len = fst (snd b),
                                rd_destroy_cb = snd (snd b)\<rparr>],
              ed_num := ed_num ed + 1\<rparr>"
  let ?h = "h\<lparr>objs := (objs h)(p \<mapsto> EdgeData ?ed)\<rparr>"
  from Cons.prems
  have add: "nns_edge_data_add limit h p (fst b) (fst (snd b)) (snd (snd b)) =
      Inr (NNS_EDGE_ERROR_NONE, ?h)"
    by (simp add: nns_edge_data_add_def as_data_def)
  have 1: "objs ?h p = Some (EdgeData ?ed)" by simp
  have 3: "ed_magic ?ed = NNS_EDGE_MAGIC" using Cons.prems(3) by simp
  have 4: "length (ed_data ?ed) = limit" using Cons.prems(4) by simp
  have 5: "ed_num ?ed + length bufs \<le> limit" using Cons.prems(5) by simp
  have 6: "\<forall>b\<in>set bufs. fst b \<noteq> 0 \<and> 0 < fst (snd b)" using Cons.prems(6) by simp
  from Cons.IH [OF 1 Cons.prems(2) 3 4 5 6] obtain h1 ed1 where
    r: "add_each limit ?h p bufs = Inr (replicate (length bufs) NNS_EDGE_ERROR_NONE, h1)"
      "objs h1 p = Some (EdgeData ed1)" "ed_magic ed1 = NNS_EDGE_MAGIC"
      "length (ed_data ed1) = limit" "ed_num ed1 = ed_num ?ed + length bufs"
    by blast
  from add r(1) have "add_each limit h p (b # bufs) =
      Inr (replicate (length (b # bufs)) NNS_EDGE_ERROR_NONE, h1)"
    by simp
  with r(2-5) show ?case by auto
qed

text \<open>
  C5. On a freshly created edge data object, appending as many buffers as the limit,
  each with a non-null address and a length above zero, succeeds every time; the count
  is then the limit, and one more append, of any buffer, fails with InvalidParameter and
  leaves the heap as it is. An append of a NULL address or of length zero fails with
  InvalidParameter on every handle that is NULL or an edge data object, and so does every
  append to an object that holds as many entries as the limit, or more.
\<close>

theorem data_add_capacity:
  "(nns_edge_data_create limit h (Some old) = (NNS_EDGE_ERROR_NONE, Some p, h0)
      \<and> length bufs = limit \<and> (\<forall>b\<in>set bufs. fst b \<noteq> 0 \<and> 0 < fst (snd b))
    \<longrightarrow> (\<exists>h1. add_each limit h0 p bufs = Inr (replicate limit NNS_EDGE_ERROR_NONE, h1)
            \<and> nns_edge_data_get_count h1 p (Some c) = Inr (NNS_EDGE_ERROR_NONE, Some limit)
            \<and> nns_edge_data_add limit h1 p data data_len cb =
                Inr (NNS_EDGE_ERROR_INVALID_PARAMETER, h1)))
   \<and> (as_data h q = Inr x \<and> (data = 0 \<or> data_len = 0)
    \<longrightarrow> nns_edge_data_add limit h q data data_len cb = Inr (NNS_EDGE_ERROR_INVALID_PARAMETER, h))
   \<and> (as_data h q = Inr (Some ed) \<and> limit \<le> ed_num ed
    \<longrightarrow> nns_edge_data_add limit h q data data_len cb = Inr (NNS_EDGE_ERROR_INVALID_PARAMETER, h))"
proof (intro conjI impI)
  assume a: "nns_edge_data_create limit h (Some old) = (NNS_EDGE_ERROR_NONE, Some p, h0)
      \<and> length bufs = limit \<and> (\<forall>b\<in>set bufs. fst b \<noteq> 0 \<and> 0 < fst (snd b))"
  let ?ed = "\<lparr>ed_magic = NNS_EDGE_MAGIC, ed_num = 0,
              ed_data = replicate limit \<lparr>rd_data = 0, rd_data_len = 0, rd_destroy_cb = None\<rparr>,
              ed_metadata = \<lparr>list = [], list_len = 0\<rparr>\<rparr>"
  from a have o: "objs h0 p = Some (EdgeData ?ed)" and p: "p \<noteq> 0"
    by (auto simp add: nns_edge_data_create_def malloc_def put_metadata_def
        nns_edge_metadata_init_def split: prod.splits if_splits)
  have "\<exists>h1 ed1. add_each limit h0 p bufs = Inr (replicate (length bufs) NNS_EDGE_ERROR_NONE, h1)
           \<and> objs h1 p = Some (EdgeData ed1) \<and> ed_magic ed1 = NNS_EDGE_MAGIC
           \<and> length (ed_data ed1) = limit \<and> ed_num ed1 = ed_num ?ed + length bufs"
    by (rule add_each_ok [OF o p]) (use a in simp_all)
  then obtain h1 ed1 where
    r: "add_each limit h0 p bufs = Inr (replicate limit NNS_EDGE_ERROR_NONE, h1)"
      "objs h1 p = Some (EdgeData ed1)" "ed_magic ed1 = NNS_EDGE_MAGIC" "ed_num ed1 = limit"
    using a by auto
  from r(2-4) p have "nns_edge_data_get_count h1 p (Some c) = Inr (NNS_EDGE_ERROR_NONE, Some limit)"
    and "nns_edge_data_add limit h1 p data data_len cb = Inr (NNS_EDGE_ERROR_INVALID_PARAMETER, h1)"
    by (simp_all add: nns_edge_data_get_count_def nns_edge_data_add_def as_data_def)
  with r(1) show "\<exists>h1. add_each limit h0 p bufs = Inr (replicate limit NNS_EDGE_ERROR_NONE, h1)
            \<and> nns_edge_data_get_count h1 p (Some c) = Inr (NNS_EDGE_ERROR_NONE, Some limit)
            \<and> nns_edge_data_add limit h1 p data data_len cb =
                Inr (NNS_EDGE_ERROR_INVALID_PARAMETER, h1)"
    by blast
next
  assume "as_data h q = Inr x \<and> (data = 0 \<or> data_len = 0)"
  then show "nns_edge_data_add limit h q data data_len cb = Inr (NNS_EDGE_ERROR_INVALID_PARAMETER, h)"
    by (auto simp add: nns_edge_data_add_def split: option.splits)
next
  assume "as_data h q = Inr (Some ed) \<and> limit \<le> ed_num ed"
  then show "nns_edge_data_add limit h q data data_len cb = Inr (NNS_EDGE_ERROR_INVALID_PARAMETER, h)"
    by (simp add: nns_edge_data_add_def)
qed

theorem data_add_capacity_witness:
  "nns_edge_data_create 2 empty_heap (Some 0) =
     (NNS_EDGE_ERROR_NONE, Some 1,
      \<lparr>objs = [1 \<mapsto> EdgeData
                \<lparr>ed_magic = NNS_EDGE_MAGIC, ed_num = 0,
                 ed_data = replicate 2 \<lparr>rd_data = 0, rd_data_len = 0, rd_destroy_cb = None\<rparr>,
                 ed_metadata = \<lparr>list = [], list_len = 0\<rparr>\<rparr>],
       brk = 1, oom = [], calls = []\<rparr>)
   \<and> (\<exists>h1. add_each 2
              \<lparr>objs = [1 \<mapsto> EdgeData
                \<lparr>ed_magic = NNS_EDGE_MAGIC, ed_num = 0,
                 ed_data = replicate 2 \<lparr>rd_data = 0, rd_data_len = 0, rd_destroy_cb = None\<rparr>,
                 ed_metadata = \<lparr>list = [], list_len = 0\<rparr>\<rparr>],
               brk = 1, oom = [], calls = []\<rparr> 1
              [(7, 2, None), (8, 3, Some NNS_EDGE_FREE)] =
            Inr ([NNS_EDGE_ERROR_NONE, NNS_EDGE_ERROR_NONE], h1)
          \<and> nns_edge_data_get_count h1 1 (Some 0) = Inr (NNS_EDGE_ERROR_NONE, Some 2)
          \<and> nns_edge_data_add 2 h1 1 9 1 None = Inr (NNS_EDGE_ERROR_INVALID_PARAMETER, h1))
   \<and> nns_edge_data_add 2 empty_heap 0 0 5 None = Inr (NNS_EDGE_ERROR_INVALID_PARAMETER, empty_heap)"
proof -
  let ?h0 = "\<lparr>objs = [1 \<mapsto> EdgeData
                \<lparr>ed_magic = NNS_EDGE_MAGIC, ed_num = 0,
                 ed_data = replicate 2 \<lparr>rd_data = 0, rd_data_len = 0, rd_destroy_cb = None\<rparr>,
                 ed_metadata = \<lparr>list = [], list_len = 0\<rparr>\<rparr>],
               brk = 1, oom = [], calls = []\<rparr>"
  have c: "nns_edge_data_create 2 empty_heap (Some 0) = (NNS_EDGE_ERROR_NONE, Some 1, ?h0)"
    by (simp add: nns_edge_data_create_def malloc_def put_metadata_def
        nns_edge_metadata_init_def empty_heap_def)
  have l: "length [(7::nat, 2::nat, None :: callback option), (8, 3, Some NNS_EDGE_FREE)] = 2"
    by simp
  have v: "\<forall>b\<in>set [(7::nat, 2::nat, None :: callback option), (8, 3, Some NNS_EDGE_FREE)].
             fst b \<noteq> 0 \<and> 0 < fst (snd b)"
    by simp
  have n: "as_data empty_heap 0 = Inr None \<and> ((0::nat) = 0 \<or> (5::nat) = 0)"
    by (simp add: as_data_def)
  note t1 = data_add_capacity [where limit = 2 and h = empty_heap and old = 0 and p = 1
      and ?h0.0 = ?h0 and bufs = "[(7, 2, None), (8, 3, Some NNS_EDGE_FREE)]" and c = 0
      and data = 9 and data_len = 1 and cb = None,
      THEN conjunct1, rule_format, OF conjI [OF c conjI [OF l v]]]
  note t2 = data_add_capacity [where limit = 2 and h = empty_heap and q = 0 and x = None
      and data = 0 and data_len = 5 and cb = None,
      THEN conjunct2, THEN conjunct1, rule_format, OF n]
  from t1 have t1': "\<exists>h1. add_each 2 ?h0 1 [(7, 2, None), (8, 3, Some NNS_EDGE_FREE)] =
            Inr ([NNS_EDGE_ERROR_NONE, NNS_EDGE_ERROR_NONE], h1)
          \<and> nns_edge_data_get_count h1 1 (Some 0) = Inr (NNS_EDGE_ERROR_NONE, Some 2)
          \<and> nns_edge_data_add 2 h1 1 9 1 None = Inr (NNS_EDGE_ERROR_INVALID_PARAMETER, h1)"
    by (simp add: eval_nat_numeral)
  show ?thesis by (intro conjI c t1' t2)
qed

subsection \<open>Kinds of events\<close>

text \<open>
  C8. Creating an event of the unknown kind fails with InvalidParameter. On an event
  created with the kind for new data, reading it as a capability fails with
  InvalidParameter; so does that reading on every event whose kind is not the
  capability kind, and the reading as new data on every event whose kind is not the
  kind for new data.
\<close>

theorem event_kind_checks:
  "nns_edge_event_create h NNS_EDGE_EVENT_UNKNOWN event_h =
     (NNS_EDGE_ERROR_INVALID_PARAMETER, event_h, h)
   \<and> (nns_edge_event_create h NNS_EDGE_EVENT_NEW_DATA_RECEIVED event_h = (NNS_EDGE_ERROR_NONE, Some p, h1)
        \<longrightarrow> nns_edge_event_parse_capability h1 p capability =
              Inr (NNS_EDGE_ERROR_INVALID_PARAMETER, capability, h1))
   \<and> (as_event h q = Inr (Some ee) \<and> ee_event ee \<noteq> NNS_EDGE_EVENT_CAPABILITY
        \<longrightarrow> nns_edge_event_parse_capability h q capability =
              Inr (NNS_EDGE_ERROR_INVALID_PARAMETER, capability, h))
   \<and> (as_event h q = Inr (Some ee) \<and> ee_event ee \<noteq> NNS_EDGE_EVENT_NEW_DATA_RECEIVED
        \<longrightarrow> nns_edge_event_parse_new_data limit h q data_h =
              Inr (NNS_EDGE_ERROR_INVALID_PARAMETER, data_h, h))"
proof (intro conjI impI)
  show "nns_edge_event_create h NNS_EDGE_EVENT_UNKNOWN event_h =
     (NNS_EDGE_ERROR_INVALID_PARAMETER, event_h, h)"
    by (simp add: nns_edge_event_create_def split: option.splits)
  show "nns_edge_event_parse_capability h1 p capability =
              Inr (NNS_EDGE_ERROR_INVALID_PARAMETER, capability, h1)"
    if "nns_edge_event_create h NNS_EDGE_EVENT_NEW_DATA_RECEIVED event_h = (NNS_EDGE_ERROR_NONE, Some p, h1)"
    using that
    by (auto simp add: nns_edge_event_create_def nns_edge_event_parse_capability_def malloc_def
        as_event_def NNS_EDGE_EVENT_NEW_DATA_RECEIVED_def NNS_EDGE_EVENT_CAPABILITY_def
        split: option.splits if_splits prod.splits)
  show "nns_edge_event_parse_capability h q capability =
              Inr (NNS_EDGE_ERROR_INVALID_PARAMETER, capability, h)"
    if "as_event h q = Inr (Some ee) \<and> ee_event ee \<noteq> NNS_EDGE_EVENT_CAPABILITY"
    using that by (simp add: nns_edge_event_parse_capability_def)
  show "nns_edge_event_parse_new_data limit h q data_h =
              Inr (NNS_EDGE_ERROR_INVALID_PARAMETER, data_h, h)"
    if "as_event h q = Inr (Some ee) \<and> ee_event ee \<noteq> NNS_EDGE_EVENT_NEW_DATA_RECEIVED"
    using that by (simp add: nns_edge_event_parse_new_data_def)
qed

theorem event_kind_checks_witness:
  "nns_edge_event_create empty_heap NNS_EDGE_EVENT_UNKNOWN (Some 0) =
     (NNS_EDGE_ERROR_INVALID_PARAMETER, Some 0, empty_heap)
   \<and> nns_edge_event_create empty_heap NNS_EDGE_EVENT_NEW_DATA_RECEIVED (Some 0) =
       (NNS_EDGE_ERROR_NONE, Some 1, event_heap)
   \<and> nns_edge_event_parse_capability event_heap 1 (Some None) =
       Inr (NNS_EDGE_ERROR_INVALID_PARAMETER, Some None, event_heap)
   \<and> nns_edge_event_parse_new_data 2 capability_heap 2 (Some 0) =
       Inr (NNS_EDGE_ERROR_INVALID_PARAMETER, Some 0, capability_heap)
   \<and> nns_edge_event_parse_capability capability_heap 2 (Some None) =
       Inr (NNS_EDGE_ERROR_NONE, Some (Some ''x''), capability_heap)"
proof -
  have c: "nns_edge_event_create empty_heap NNS_EDGE_EVENT_NEW_DATA_RECEIVED (Some 0) =
       (NNS_EDGE_ERROR_NONE, Some 1, event_heap)"
    by (simp add: nns_edge_event_create_def malloc_def empty_heap_def event_heap_def
        NNS_EDGE_EVENT_UNKNOWN_def NNS_EDGE_EVENT_NEW_DATA_RECEIVED_def)
  have e: "as_event capability_heap 2 = Inr (Some
             \<lparr>ee_magic = NNS_EDGE_MAGIC, ee_event = NNS_EDGE_EVENT_CAPABILITY,
              ee_data = \<lparr>rd_data = 1, rd_data_len = 2, rd_destroy_cb = None\<rparr>\<rparr>)
           \<and> ee_event \<lparr>ee_magic = NNS_EDGE_MAGIC, ee_event = NNS_EDGE_EVENT_CAPABILITY,
              ee_data = \<lparr>rd_data = 1, rd_data_len = 2, rd_destroy_cb = None\<rparr>\<rparr>
             \<noteq> NNS_EDGE_EVENT_NEW_DATA_RECEIVED"
    by (simp add: as_event_def capability_heap_def NNS_EDGE_EVENT_CAPABILITY_def
        NNS_EDGE_EVENT_NEW_DATA_RECEIVED_def)
  note t1 = event_kind_checks [where h = empty_heap and event_h = "Some 0", THEN conjunct1]
  note t2 = event_kind_checks [where h = empty_heap and event_h = "Some 0" and p = 1
      and ?h1.0 = event_heap and capability = "Some None",
      THEN conjunct2, THEN conjunct1, rule_format, OF c]
  note t3 = event_kind_checks [where h = capability_heap and q = 2 and limit = 2
      and data_h = "Some 0",
      THEN conjunct2, THEN conjunct2, THEN conjunct2, rule_format, OF e]
  have p: "nns_edge_event_parse_capability capability_heap 2 (Some None) =
       Inr (NNS_EDGE_ERROR_NONE, Some (Some ''x''), capability_heap)"
    by (simp add: nns_edge_event_parse_capability_def as_event_def capability_heap_def
        NUL_def nns_edge_strdup_def nns_edge_strndup_def strlen_def c_str_def)
  show ?thesis by (intro conjI t1 c t2 t3 p)
qed

subsection \<open>Destroying twice\<close>














end
